theory Spec2Isabelle
  imports Main "HOL-Library.Code_Target_Numeral"
begin

section \<open>Library functions used by dfc/listrange.go\<close>

text \<open>
  The Go standard library is not part of the repository. The three functions that
  \<open>listrange.go\<close> calls on strings are written out here as Go documents them:
  \<open>strings.TrimPrefix\<close>, \<open>strings.Split\<close> with the separator \<open>":"\<close>, and
  \<open>strconv.ParseInt(s, 10, 64)\<close>. A Go string is a byte sequence, a HOL \<open>string\<close>.
  \<open>ParseInt\<close> returns a value and an error together; both are kept, since
  \<open>parseRange\<close> hands the value back to its caller also when the error is set.
\<close>

datatype numError = ErrSyntax | ErrRange

datatype panic = IndexOutOfRange nat nat | NilPointerDereference | InterfaceConversion

definition isDigit :: "char \<Rightarrow> bool" where
  "isDigit c = (48 \<le> (of_char c :: nat) \<and> (of_char c :: nat) \<le> 57)"

definition digitVal :: "char \<Rightarrow> nat" where
  "digitVal c = (of_char c :: nat) - 48"

definition maxUint64 :: nat where
  "maxUint64 = 18446744073709551615"

definition cutoff64 :: nat where
  "cutoff64 = 1844674407370955162"

text \<open>
  The loop of \<open>strconv.ParseUint\<close> for base 10 and 64 bits: a byte that is no digit
  is a syntax error with value 0; an accumulator at or over \<open>maxUint64/10 + 1\<close>, or a
  sum that no longer fits 64 bits, is a range error with value \<open>maxUint64\<close>, returned
  at once (the bytes after it are not looked at).
\<close>

fun parseUintLoop :: "nat \<Rightarrow> string \<Rightarrow> nat \<times> numError option" where
  "parseUintLoop n [] = (n, None)"
| "parseUintLoop n (c # cs) =
     (if \<not> isDigit c then (0, Some ErrSyntax)
      else if cutoff64 \<le> n then (maxUint64, Some ErrRange)
      else if maxUint64 < n * 10 + digitVal c then (maxUint64, Some ErrRange)
      else parseUintLoop (n * 10 + digitVal c) cs)"

definition ParseUint :: "string \<Rightarrow> nat \<times> numError option" where
  "ParseUint s = (if s = [] then (0, Some ErrSyntax) else parseUintLoop 0 s)"

definition ParseInt :: "string \<Rightarrow> int \<times> numError option" where
  "ParseInt s0 =
     (case s0 of
        [] \<Rightarrow> (0, Some ErrSyntax)
      | c # cs \<Rightarrow>
          (let neg = (c = CHR ''-'');
               s = (if c = CHR ''+'' \<or> c = CHR ''-'' then cs else s0);
               r = ParseUint s;
               un = fst r
           in if snd r = Some ErrSyntax then (0, Some ErrSyntax)
              else if \<not> neg \<and> 9223372036854775808 \<le> un
                then (9223372036854775807, Some ErrRange)
              else if neg \<and> 9223372036854775808 < un
                then (- 9223372036854775808, Some ErrRange)
              else (if neg then - int un else int un, None)))"

definition TrimPrefix :: "string \<Rightarrow> string \<Rightarrow> string" where
  "TrimPrefix s pre =
     (if take (length pre) s = pre then drop (length pre) s else s)"

text \<open>\<open>strings.Split(s, ":")\<close>: the pieces between the colons; one piece when there is none.\<close>

fun Split :: "string \<Rightarrow> string list" where
  "Split [] = [[]]"
| "Split (c # cs) =
     (if c = CHR '':'' then [] # Split cs
      else (case Split cs of [] \<Rightarrow> [[c]] | w # ws \<Rightarrow> (c # w) # ws))"

section \<open>Message parsing: parseRange\<close>

text \<open>
  \<open>parseRange\<close> returns \<open>(min, max, err)\<close>; the named results start at zero and keep
  what was assigned before an early \<open>return\<close>. The index expression \<open>ranges[1]\<close> panics
  when the split has one element, which is a branch of the model.
\<close>

definition parseBound :: "string \<Rightarrow> int \<times> numError option" where
  "parseBound r = (if r = [] then (0, None) else ParseInt r)"

definition parseRange :: "string \<Rightarrow> panic + (int \<times> int \<times> numError option)" where
  "parseRange rangestr =
     (if rangestr \<noteq> [] then
        (let ranges = Split rangestr
         in case ranges of
              [] \<Rightarrow> Inl (IndexOutOfRange 0 0)
            | r0 # rest \<Rightarrow>
                (case parseBound r0 of
                   (mn, Some e) \<Rightarrow> Inr (mn, 0, Some e)
                 | (mn, None) \<Rightarrow>
                     (case rest of
                        [] \<Rightarrow> Inl (IndexOutOfRange 1 (length ranges))
                      | r1 # _ \<Rightarrow>
                          (case parseBound r1 of (mx, err) \<Rightarrow> Inr (mn, mx, err)))))
      else Inr (0, 0, None))"

section \<open>Data of the target\<close>

text \<open>
  Times are nanosecond counts (\<open>int\<close>), durations too. A \<open>time.Time\<close> that may be the
  zero time is an \<open>int option\<close>, \<open>None\<close> being the zero time: \<open>time.Now()\<close> and
  \<open>time.Now().Add(d)\<close> are never the zero time.
\<close>

record daemonInfo =
  DaemonID :: string
  NodeIPAddr :: string
  DaemonPort :: string

record BucketEntry =
  Name :: string

record BucketList =
  Entries :: "BucketEntry list"
  PageMarker :: string

record GetMsg =
  GetPrefix :: string
  GetPageMarker :: string

record RangeListMsgBase =
  Deadline :: int
  Wait :: bool

record ListMsg = RangeListMsgBase +
  Objnames :: "string list"

record RangeMsg = RangeListMsgBase +
  Prefix :: string
  Regex :: string
  Range :: string

record objectProps =
  size :: int

text \<open>
  The part of \<open>targetrunner\<close> that an xaction reads through its back-reference:
  \<open>starttime()\<close>. A nil back-reference is \<open>None\<close>.
\<close>

record runner =
  starttime :: int

record xactBase =
  xid :: nat
  kind :: string
  stime :: int
  etime :: "int option"

record xact = xactBase +
  targetrunner :: "runner option"

text \<open>
  The registry holds values of the interface type; the two struct types
  \<open>xactPrefetch\<close> and \<open>xactDeleteEvict\<close> have the same fields and differ by their tag.
\<close>

datatype xactInterface = XactPrefetch xact | XactDeleteEvict xact

fun xactOf :: "xactInterface \<Rightarrow> xact" where
  "xactOf (XactPrefetch x) = x"
| "xactOf (XactDeleteEvict x) = x"

record filesWithDeadline =
  objnames :: "string list"
  bucket :: string
  deadline :: "int option"
  donec :: "nat option"

text \<open>
  A compiled regular expression is its \<open>FindStringSubmatch\<close>: \<open>None\<close> is the nil slice,
  \<open>Some (m, subs)\<close> is the slice whose element 0 is the match \<open>m\<close>.
\<close>

type_synonym regexp = "string \<Rightarrow> (string \<times> string list) option"

datatype error =
    ErrListCloud string int string
  | ErrUnmarshal string
  | ErrCompileRegex string
  | ErrHrw string
  | ErrLocalPrefetch string
  | ErrStore string

text \<open>
  The value of \<open>tostring\<close> stands for the formatted string: kind, id, start offset and,
  for a finished xaction, the end offset.
\<close>

datatype xstring = Started string nat int | StartedFinished string nat int int

datatype logline =
    LogListOperation error
  | LogRangeOperation error
  | LogErrstr string
  | LogTooManyPages nat
  | LogAlreadyRunning xstring
  | LogPrefetch string string

datatype invalmsg = InvalErrstr string | InvalRange string numError

text \<open>
  Everything the target does to the world is appended to a trace, in order: the error
  handler of the HTTP layer, the log, the calls into the local store and the cloud, the
  registry, and the channel operations on a \<open>done\<close> channel (named by a number).
\<close>

datatype event =
    EvInvalMsg invalmsg
  | EvLogError logline
  | EvLogWarning logline
  | EvLogInfo logline
  | EvXactAdd nat string
  | EvXactDel nat
  | EvFildelete string string bool
  | EvLookupLocally string string
  | EvCheckCloudVersion string string
  | EvColdget string string
  | EvEnqueue string "string list"
  | EvMakeChan nat
  | EvSend nat
  | EvRecv nat
  | EvClose nat

text \<open>
  The external collaborators of the core and the functions of the repository that are
  defined outside \<open>listrange.go\<close> are parameters of the model: \<open>HrwTarget\<close> on the current
  Smap, \<open>islocal\<close> on the current bucket metadata, the local store, the cloud adapter,
  \<open>regexp.Compile\<close>, the clock (\<open>now k\<close> is the k-th reading of \<open>time.Now()\<close>) and the
  abort channel (\<open>aborted x i\<close>: the abort of xaction \<open>x\<close> is readable at the poll before
  object number \<open>i\<close>).
\<close>

record env =
  si :: daemonInfo
  me :: runner
  HrwTarget :: "string \<Rightarrow> string \<Rightarrow> daemonInfo option \<times> string"
  islocal :: "string \<Rightarrow> bool"
  prepareLocalObjectList :: "string \<Rightarrow> GetMsg \<Rightarrow> error + BucketList"
  listbucket :: "string \<Rightarrow> GetMsg \<Rightarrow> string \<times> string \<times> int"
  Unmarshal :: "string \<Rightarrow> string + BucketList"
  Compile :: "string \<Rightarrow> string + regexp"
  fildelete :: "string \<Rightarrow> string \<Rightarrow> bool \<Rightarrow> error option"
  lookupLocally :: "string \<Rightarrow> string \<Rightarrow> bool \<times> int \<times> string \<times> string"
  ValidateWarmGet :: bool
  versioningConfigured :: "string \<Rightarrow> bool"
  checkCloudVersion :: "string \<Rightarrow> string \<Rightarrow> string \<Rightarrow> bool \<times> string \<times> int"
  coldget :: "string \<Rightarrow> string \<Rightarrow> bool \<Rightarrow> objectProps option \<times> string \<times> int"
  verbose4 :: bool
  now :: "nat \<Rightarrow> int"
  aborted :: "nat \<Rightarrow> nat \<Rightarrow> bool"

record tstate =
  xactinp :: "xactInterface list"
  nextid :: nat
  prefetchQueue :: "filesWithDeadline list"
  stats :: "string \<Rightarrow> int"
  trace :: "event list"
  clock :: nat
  nchan :: nat

definition prefetchChanSize :: nat where
  "prefetchChanSize = 200"

definition maxPrefetchPages :: nat where
  "maxPrefetchPages = 10"

definition ActDelete :: string where "ActDelete = ''delete''"
definition ActEvict :: string where "ActEvict = ''evict''"
definition ActPrefetch :: string where "ActPrefetch = ''prefetch''"

definition emit :: "event \<Rightarrow> tstate \<Rightarrow> tstate" where
  "emit ev s = s\<lparr>trace := trace s @ [ev]\<rparr>"

definition timeNow :: "env \<Rightarrow> tstate \<Rightarrow> int \<times> tstate" where
  "timeNow e s = (now e (clock s), s\<lparr>clock := Suc (clock s)\<rparr>)"

definition statsAdd :: "string \<Rightarrow> int \<Rightarrow> tstate \<Rightarrow> tstate" where
  "statsAdd name delta s = s\<lparr>stats := (stats s)(name := stats s name + delta)\<rparr>"

definition makeChan :: "tstate \<Rightarrow> nat \<times> tstate" where
  "makeChan s = (nchan s, emit (EvMakeChan (nchan s)) (s\<lparr>nchan := Suc (nchan s)\<rparr>))"

section \<open>The xaction registry\<close>

text \<open>
  Modelled from the spec: the registry operations \<open>uniqueid\<close>, \<open>add\<close>, \<open>del\<close>, \<open>findU\<close>,
  \<open>finished\<close> and the constructor \<open>newxactBase\<close> are defined outside \<open>listrange.go\<close>
  (\<open>add\<close> and \<open>del\<close> are \<open>xadd\<close> and \<open>xdel\<close> here). Ids are monotone per node and
  unique; \<open>del(id)\<close> removes the xaction with that id; \<open>find(kind)\<close> yields an xaction of
  that kind if one is registered; a new xaction carries its start time and no end time.
\<close>

definition uniqueid :: "tstate \<Rightarrow> nat \<times> tstate" where
  "uniqueid s = (nextid s, s\<lparr>nextid := Suc (nextid s)\<rparr>)"

definition newxactBase :: "env \<Rightarrow> nat \<Rightarrow> string \<Rightarrow> tstate \<Rightarrow> xactBase \<times> tstate" where
  "newxactBase e i k s =
     (case timeNow e s of
        (t, s1) \<Rightarrow> (\<lparr>xid = i, kind = k, stime = t, etime = None\<rparr>, s1))"

definition xadd :: "xactInterface \<Rightarrow> tstate \<Rightarrow> tstate" where
  "xadd x s =
     emit (EvXactAdd (xid (xactOf x)) (kind (xactOf x))) (s\<lparr>xactinp := xactinp s @ [x]\<rparr>)"

definition xdel :: "nat \<Rightarrow> tstate \<Rightarrow> tstate" where
  "xdel i s =
     emit (EvXactDel i) (s\<lparr>xactinp := filter (\<lambda>x. xid (xactOf x) \<noteq> i) (xactinp s)\<rparr>)"

definition findU :: "string \<Rightarrow> tstate \<Rightarrow> xactInterface option" where
  "findU k s = find (\<lambda>x. kind (xactOf x) = k) (xactinp s)"

definition finished :: "xact \<Rightarrow> bool" where
  "finished x = (etime x \<noteq> None)"

text \<open>
  \<open>newDelete\<close>, \<open>newEvict\<close> and \<open>renewPrefetch\<close> as written; the struct literal of the first
  two names \<open>xactBase\<close> only, which leaves \<open>targetrunner\<close> nil.
\<close>

definition newDelete :: "env \<Rightarrow> tstate \<Rightarrow> xact \<times> tstate" where
  "newDelete e s =
     (case uniqueid s of
        (i, s1) \<Rightarrow>
          (case newxactBase e i ActDelete s1 of
             (b, s2) \<Rightarrow>
               (let xpre = xactBase.extend b \<lparr>targetrunner = None\<rparr>
                in (xpre, xadd (XactDeleteEvict xpre) s2))))"

definition newEvict :: "env \<Rightarrow> tstate \<Rightarrow> xact \<times> tstate" where
  "newEvict e s =
     (case uniqueid s of
        (i, s1) \<Rightarrow>
          (case newxactBase e i ActEvict s1 of
             (b, s2) \<Rightarrow>
               (let xpre = xactBase.extend b \<lparr>targetrunner = None\<rparr>
                in (xpre, xadd (XactDeleteEvict xpre) s2))))"

text \<open>
  \<open>tostring\<close> of either struct type: the start offset is computed first, through the
  back-reference.
\<close>

definition tostring :: "env \<Rightarrow> xact \<Rightarrow> tstate \<Rightarrow> panic + (xstring \<times> tstate)" where
  "tostring e x s =
     (case targetrunner x of
        None \<Rightarrow> Inl NilPointerDereference
      | Some t \<Rightarrow>
          (let start = stime x - starttime t
           in if \<not> finished x then Inr (Started (kind x) (xid x) start, s)
              else (case timeNow e s of
                      (n, s1) \<Rightarrow>
                        Inr (StartedFinished (kind x) (xid x) start (n - starttime t), s1))))"

definition renewPrefetch :: "env \<Rightarrow> runner \<Rightarrow> tstate \<Rightarrow> panic + (xact option \<times> tstate)" where
  "renewPrefetch e t s =
     (case findU ActPrefetch s of
        Some (XactDeleteEvict _) \<Rightarrow> Inl InterfaceConversion
      | Some (XactPrefetch xpre) \<Rightarrow>
          (case tostring e xpre s of
             Inl p \<Rightarrow> Inl p
           | Inr (str, s1) \<Rightarrow> Inr (None, emit (EvLogInfo (LogAlreadyRunning str)) s1))
      | None \<Rightarrow>
          (case uniqueid s of
             (i, s1) \<Rightarrow>
               (case newxactBase e i ActPrefetch s1 of
                  (b, s2) \<Rightarrow>
                    (let xpre = xactBase.extend b \<lparr>targetrunner = Some t\<rparr>
                     in Inr (Some xpre, xadd (XactPrefetch xpre) s2)))))"

section \<open>Generic list/range methods\<close>

text \<open>
  \<open>getListFromRangeCloud\<close>: at most \<open>maxPrefetchPages\<close> pages. The counter of the
  function is the number of iterations left, so the last iteration (\<open>i = maxPrefetchPages - 1\<close>)
  is the one that leaves none.
\<close>

fun cloudPages ::
  "env \<Rightarrow> string \<Rightarrow> nat \<Rightarrow> GetMsg \<Rightarrow> BucketEntry list \<Rightarrow> tstate \<Rightarrow> (error + BucketList) \<times> tstate"
where
  "cloudPages e bkt 0 msg acc s = (Inr \<lparr>Entries = acc, PageMarker = []\<rparr>, s)"
| "cloudPages e bkt (Suc n) msg acc s =
     (case listbucket e bkt msg of
        (jsbytes, errstr, errcode) \<Rightarrow>
          if errstr \<noteq> [] then (Inl (ErrListCloud bkt errcode errstr), s)
          else
            (case Unmarshal e jsbytes of
               Inl er \<Rightarrow> (Inl (ErrUnmarshal er), s)
             | Inr reslist \<Rightarrow>
                 if PageMarker reslist = []
                 then (Inr \<lparr>Entries = acc @ Entries reslist, PageMarker = []\<rparr>, s)
                 else cloudPages e bkt n (msg\<lparr>GetPageMarker := PageMarker reslist\<rparr>)
                        (acc @ Entries reslist)
                        (if n = 0 then emit (EvLogWarning (LogTooManyPages maxPrefetchPages)) s
                         else s)))"

definition getListFromRangeCloud ::
  "env \<Rightarrow> string \<Rightarrow> GetMsg \<Rightarrow> tstate \<Rightarrow> (error + BucketList) \<times> tstate"
where
  "getListFromRangeCloud e bkt msg s = cloudPages e bkt maxPrefetchPages msg [] s"

definition acceptRegexRange :: "string \<Rightarrow> string \<Rightarrow> regexp \<Rightarrow> int \<Rightarrow> int \<Rightarrow> bool" where
  "acceptRegexRange name prefix regex mn mx =
     (let oname = TrimPrefix name prefix
      in case regex oname of
           None \<Rightarrow> False
         | Some (s0, _) \<Rightarrow>
             (case ParseInt s0 of
                (i, err) \<Rightarrow>
                  if err \<noteq> None \<and> s0 \<noteq> [] then False
                  else if s0 = [] \<or> ((mn = 0 \<or> mn \<le> i) \<and> (mx = 0 \<or> i \<le> mx)) then True
                  else False))"

text \<open>
  The loop of \<open>getListFromRange\<close> over the listed entries. The ownership test is
  \<open>si == nil || si.DaemonID == t.si.DaemonID\<close>; inside it a non-empty error string of
  \<open>HrwTarget\<close> ends the expansion with that error.
\<close>

fun rangeEntries ::
  "env \<Rightarrow> string \<Rightarrow> string \<Rightarrow> regexp \<Rightarrow> int \<Rightarrow> int \<Rightarrow> BucketEntry list \<Rightarrow> string list
     \<Rightarrow> error + string list"
where
  "rangeEntries e bkt prefix re mn mx [] objs = Inr objs"
| "rangeEntries e bkt prefix re mn mx (be # bes) objs =
     (if \<not> acceptRegexRange (Name be) prefix re mn mx
      then rangeEntries e bkt prefix re mn mx bes objs
      else
        (case HrwTarget e bkt (Name be) of
           (None, errstr) \<Rightarrow>
             if errstr \<noteq> [] then Inl (ErrHrw errstr)
             else rangeEntries e bkt prefix re mn mx bes (objs @ [Name be])
         | (Some d, errstr) \<Rightarrow>
             if DaemonID d = DaemonID (si e) then
               (if errstr \<noteq> [] then Inl (ErrHrw errstr)
                else rangeEntries e bkt prefix re mn mx bes (objs @ [Name be]))
             else rangeEntries e bkt prefix re mn mx bes objs))"

definition getListFromRange ::
  "env \<Rightarrow> string \<Rightarrow> string \<Rightarrow> string \<Rightarrow> int \<Rightarrow> int \<Rightarrow> tstate \<Rightarrow> (error + string list) \<times> tstate"
where
  "getListFromRange e bkt prefix regex mn mx s =
     (let msg = \<lparr>GetPrefix = prefix, GetPageMarker = []\<rparr>
      in case (if islocal e bkt then (prepareLocalObjectList e bkt msg, s)
               else getListFromRangeCloud e bkt msg s) of
           (Inl err, s1) \<Rightarrow> (Inl err, s1)
         | (Inr fullbucketlist, s1) \<Rightarrow>
             (case Compile e regex of
                Inl er \<Rightarrow> (Inl (ErrCompileRegex er), s1)
              | Inr re \<Rightarrow>
                  (rangeEntries e bkt prefix re mn mx (Entries fullbucketlist) [], s1)))"

text \<open>
  The ownership loop of \<open>listOperation\<close>: a non-empty error string of \<open>HrwTarget\<close> goes to
  the error handler and ends the request; otherwise \<open>si.DaemonID\<close> is read, which panics
  on a nil \<open>si\<close>.
\<close>

datatype owned = Kept "string list" | HrwError string | HrwPanic panic

fun ownedObjs :: "env \<Rightarrow> string \<Rightarrow> string list \<Rightarrow> string list \<Rightarrow> owned" where
  "ownedObjs e bkt [] objs = Kept objs"
| "ownedObjs e bkt (obj # rest) objs =
     (case HrwTarget e bkt obj of
        (sinfo, errstr) \<Rightarrow>
          if errstr \<noteq> [] then HrwError errstr
          else
            (case sinfo of
               None \<Rightarrow> HrwPanic NilPointerDereference
             | Some d \<Rightarrow>
                 if DaemonID d = DaemonID (si e) then ownedObjs e bkt rest (objs @ [obj])
                 else ownedObjs e bkt rest objs))"

text \<open>
  An operation runs in its own goroutine. The model runs it to its end before the handler
  goes on; the operation either returns its error value or is parked at the send on the
  full prefetch queue. The handler then receives from \<open>done\<close> when \<open>Wait\<close> is set: it
  returns if a signal was sent, and is parked at the receive otherwise.
\<close>

datatype opresult = OpReturned "error option" | OpBlockedOnQueue

datatype hstatus = HReturned | HWaiting "nat option" | HPanicked panic

type_synonym listf =
  "string list \<Rightarrow> string \<Rightarrow> int \<Rightarrow> nat option \<Rightarrow> tstate \<Rightarrow> opresult \<times> tstate"

type_synonym rangef =
  "string \<Rightarrow> string \<Rightarrow> string \<Rightarrow> int \<Rightarrow> int \<Rightarrow> int \<Rightarrow> nat option \<Rightarrow> tstate \<Rightarrow> opresult \<times> tstate"

definition makeDone :: "bool \<Rightarrow> tstate \<Rightarrow> nat option \<times> tstate" where
  "makeDone wait s = (if wait then (case makeChan s of (c, s1) \<Rightarrow> (Some c, s1)) else (None, s))"

definition awaitDone :: "bool \<Rightarrow> nat option \<Rightarrow> tstate \<Rightarrow> hstatus \<times> tstate" where
  "awaitDone wait dn s =
     (if wait then
        (case dn of
           None \<Rightarrow> (HWaiting None, s)
         | Some c \<Rightarrow>
             if EvSend c \<in> set (trace s) then (HReturned, emit (EvClose c) (emit (EvRecv c) s))
             else (HWaiting (Some c), s))
      else (HReturned, s))"

definition listOperation ::
  "env \<Rightarrow> string list option \<Rightarrow> ListMsg \<Rightarrow> listf \<Rightarrow> tstate \<Rightarrow> hstatus \<times> tstate"
where
  "listOperation e apitems listMsg operation s =
     (case apitems of
        None \<Rightarrow> (HReturned, s)
      | Some [] \<Rightarrow> (HPanicked (IndexOutOfRange 0 0), s)
      | Some (bkt # _) \<Rightarrow>
          (case ownedObjs e bkt (Objnames listMsg) [] of
             HrwError errstr \<Rightarrow> (HReturned, emit (EvInvalMsg (InvalErrstr errstr)) s)
           | HrwPanic p \<Rightarrow> (HPanicked p, s)
           | Kept objs \<Rightarrow>
               if objs \<noteq> [] then
                 (case makeDone (Wait listMsg) s of
                    (dn, s1) \<Rightarrow>
                      (case operation objs bkt (Deadline listMsg) dn s1 of
                         (OpReturned (Some err), s2) \<Rightarrow>
                           awaitDone (Wait listMsg) dn
                             (statsAdd ''numerr'' 1 (emit (EvLogError (LogListOperation err)) s2))
                       | (_, s2) \<Rightarrow> awaitDone (Wait listMsg) dn s2))
               else (HReturned, s)))"

definition rangeOperation ::
  "env \<Rightarrow> string list option \<Rightarrow> RangeMsg \<Rightarrow> rangef \<Rightarrow> tstate \<Rightarrow> hstatus \<times> tstate"
where
  "rangeOperation e apitems rangeMsg operation s =
     (case apitems of
        None \<Rightarrow> (HReturned, s)
      | Some [] \<Rightarrow> (HPanicked (IndexOutOfRange 0 0), s)
      | Some (bkt # _) \<Rightarrow>
          (case parseRange (Range rangeMsg) of
             Inl p \<Rightarrow> (HPanicked p, s)
           | Inr (mn, mx, err) \<Rightarrow>
               (case makeDone (Wait rangeMsg)
                       (case err of
                          None \<Rightarrow> s
                        | Some er \<Rightarrow> emit (EvInvalMsg (InvalRange (Range rangeMsg) er)) s) of
                  (dn, s1) \<Rightarrow>
                    (case operation bkt (Prefix rangeMsg) (Regex rangeMsg) mn mx
                            (Deadline rangeMsg) dn s1 of
                       (OpReturned (Some er), s2) \<Rightarrow>
                         awaitDone (Wait rangeMsg) dn
                           (statsAdd ''numerr'' 1 (emit (EvLogError (LogRangeOperation er)) s2))
                     | (_, s2) \<Rightarrow> awaitDone (Wait rangeMsg) dn s2))))"

section \<open>Delete/Evict\<close>

text \<open>
  The loop of \<open>doListEvictDelete\<close>. Before each object the abort channel is polled; with
  a deadline set the clock is read and an object past the deadline is skipped; an error of
  \<open>fildelete\<close> is returned at once.
\<close>

fun evictDeleteLoop ::
  "env \<Rightarrow> bool \<Rightarrow> string \<Rightarrow> nat \<Rightarrow> int option \<Rightarrow> nat \<Rightarrow> string list \<Rightarrow> tstate
     \<Rightarrow> error option \<times> tstate"
where
  "evictDeleteLoop e evict bkt x absdeadline i [] s = (None, s)"
| "evictDeleteLoop e evict bkt x absdeadline i (objname # objs) s =
     (if aborted e x i then (None, s)
      else
        (case (case absdeadline of
                 None \<Rightarrow> (False, s)
               | Some d \<Rightarrow> (case timeNow e s of (t, s1) \<Rightarrow> (d < t, s1))) of
           (late, s1) \<Rightarrow>
             if late then evictDeleteLoop e evict bkt x absdeadline (Suc i) objs s1
             else
               (case fildelete e bkt objname evict of
                  Some err \<Rightarrow> (Some err, emit (EvFildelete bkt objname evict) s1)
                | None \<Rightarrow>
                    evictDeleteLoop e evict bkt x absdeadline (Suc i) objs
                      (emit (EvFildelete bkt objname evict) s1))))"

definition absDeadline :: "env \<Rightarrow> int \<Rightarrow> tstate \<Rightarrow> int option \<times> tstate" where
  "absDeadline e dl s =
     (if dl \<noteq> 0 then (case timeNow e s of (t, s1) \<Rightarrow> (Some (t + dl), s1)) else (None, s))"

definition sendDone :: "nat option \<Rightarrow> tstate \<Rightarrow> tstate" where
  "sendDone dn s = (case dn of None \<Rightarrow> s | Some c \<Rightarrow> emit (EvSend c) s)"

text \<open>
  \<open>doListEvictDelete\<close>: the deferred function runs on every way out of the loop; it sends
  on \<open>done\<close> first and removes the xaction from the registry second.
\<close>

definition doListEvictDelete ::
  "env \<Rightarrow> bool \<Rightarrow> string list \<Rightarrow> string \<Rightarrow> int \<Rightarrow> nat option \<Rightarrow> tstate \<Rightarrow> opresult \<times> tstate"
where
  "doListEvictDelete e evict objs bkt dl dn s =
     (case (if evict then newEvict e s else newDelete e s) of
        (xd, s1) \<Rightarrow>
          (case absDeadline e dl s1 of
             (absdeadline, s2) \<Rightarrow>
               (case evictDeleteLoop e evict bkt (xid xd) absdeadline 0 objs s2 of
                  (err, s3) \<Rightarrow> (OpReturned err, xdel (xid xd) (sendDone dn s3)))))"

definition doRangeEvictDelete ::
  "env \<Rightarrow> bool \<Rightarrow> string \<Rightarrow> string \<Rightarrow> string \<Rightarrow> int \<Rightarrow> int \<Rightarrow> int \<Rightarrow> nat option \<Rightarrow> tstate
     \<Rightarrow> opresult \<times> tstate"
where
  "doRangeEvictDelete e evict bkt prefix regex mn mx dl dn s =
     (case getListFromRange e bkt prefix regex mn mx s of
        (Inl err, s1) \<Rightarrow> (OpReturned (Some err), s1)
      | (Inr objs, s1) \<Rightarrow> doListEvictDelete e evict objs bkt dl dn s1)"

definition doListDelete :: "env \<Rightarrow> listf" where
  "doListDelete e objs bkt dl dn s = doListEvictDelete e False objs bkt dl dn s"

definition doListEvict :: "env \<Rightarrow> listf" where
  "doListEvict e objs bkt dl dn s = doListEvictDelete e True objs bkt dl dn s"

definition doRangeDelete :: "env \<Rightarrow> rangef" where
  "doRangeDelete e bkt prefix regex mn mx dl dn s =
     doRangeEvictDelete e False bkt prefix regex mn mx dl dn s"

definition doRangeEvict :: "env \<Rightarrow> rangef" where
  "doRangeEvict e bkt prefix regex mn mx dl dn s =
     doRangeEvictDelete e True bkt prefix regex mn mx dl dn s"


definition evictList :: "env \<Rightarrow> string list option \<Rightarrow> ListMsg \<Rightarrow> tstate \<Rightarrow> hstatus \<times> tstate" where
  "evictList e apitems evictMsg s = listOperation e apitems evictMsg (doListEvict e) s"

definition deleteRange :: "env \<Rightarrow> string list option \<Rightarrow> RangeMsg \<Rightarrow> tstate \<Rightarrow> hstatus \<times> tstate" where
  "deleteRange e apitems deleteRangeMsg s =
     rangeOperation e apitems deleteRangeMsg (doRangeDelete e) s"

definition evictRange :: "env \<Rightarrow> string list option \<Rightarrow> RangeMsg \<Rightarrow> tstate \<Rightarrow> hstatus \<times> tstate" where
  "evictRange e apitems evictMsg s = rangeOperation e apitems evictMsg (doRangeEvict e) s"

section \<open>Prefetch\<close>

text \<open>
  \<open>prefetchMissing\<close> returns nothing; what it did is in the trace and the counters. The
  cold get returns a pointer to the properties, read when the error string is empty.
\<close>

definition prefetchCold ::
  "env \<Rightarrow> string \<Rightarrow> string \<Rightarrow> bool \<Rightarrow> bool \<Rightarrow> tstate \<Rightarrow> panic + tstate"
where
  "prefetchCold e objname bkt cold vchanged s =
     (if \<not> cold then Inr s
      else
        (case coldget e bkt objname True of
           (props, errstr, _) \<Rightarrow>
             if errstr \<noteq> [] then
               (if errstr \<noteq> ''skip''
                then Inr (emit (EvLogError (LogErrstr errstr)) (emit (EvColdget bkt objname) s))
                else Inr (emit (EvColdget bkt objname) s))
             else
               (case props of
                  None \<Rightarrow> Inl NilPointerDereference
                | Some pr \<Rightarrow>
                    (let s1 = emit (EvColdget bkt objname) s;
                         s2 = (if verbose4 e then emit (EvLogInfo (LogPrefetch bkt objname)) s1
                               else s1);
                         s3 = statsAdd ''bytesprefetched'' (size pr)
                                (statsAdd ''numprefetch'' 1 s2)
                     in if vchanged
                        then Inr (statsAdd ''numvchanged'' 1
                                    (statsAdd ''bytesvchanged'' (size pr) s3))
                        else Inr s3))))"

definition prefetchMissing :: "env \<Rightarrow> string \<Rightarrow> string \<Rightarrow> tstate \<Rightarrow> panic + tstate" where
  "prefetchMissing e objname bkt s =
     (let isl = islocal e bkt;
          s1 = emit (EvLookupLocally bkt objname) s
      in case lookupLocally e bkt objname of
           (cold, _, version, errstr) \<Rightarrow>
             if (errstr \<noteq> [] \<and> \<not> cold) \<or> (errstr \<noteq> [] \<and> cold \<and> isl)
             then Inr (emit (EvLogError (LogErrstr errstr)) s1)
             else if \<not> cold \<and> \<not> isl \<and> ValidateWarmGet e \<and> version \<noteq> []
                     \<and> versioningConfigured e bkt
             then
               (case checkCloudVersion e bkt objname version of
                  (vchanged, errstr2, _) \<Rightarrow>
                    if errstr2 \<noteq> [] then Inr (emit (EvCheckCloudVersion bkt objname) s1)
                    else prefetchCold e objname bkt vchanged vchanged
                           (emit (EvCheckCloudVersion bkt objname) s1))
             else prefetchCold e objname bkt cold False s1)"

fun prefetchObjs :: "env \<Rightarrow> string \<Rightarrow> string list \<Rightarrow> tstate \<Rightarrow> panic + tstate" where
  "prefetchObjs e bkt [] s = Inr s"
| "prefetchObjs e bkt (objname # rest) s =
     (case prefetchMissing e objname bkt s of
        Inl p \<Rightarrow> Inl p
      | Inr s1 \<Rightarrow> prefetchObjs e bkt rest s1)"

text \<open>
  The loop of \<open>doPrefetch\<close> receives from the queue until it is empty. The model runs the
  loop alone, so the queue is the list it starts with; at each step the state holds what
  is left of it. A batch whose deadline has passed is dropped by \<open>continue\<close>, which also
  passes over the send on its \<open>done\<close> channel.
\<close>

fun drainQueue :: "env \<Rightarrow> filesWithDeadline list \<Rightarrow> tstate \<Rightarrow> panic + tstate" where
  "drainQueue e [] s = Inr s"
| "drainQueue e (fwd # q) s =
     (case (case deadline fwd of
              None \<Rightarrow> (False, s\<lparr>prefetchQueue := q\<rparr>)
            | Some d \<Rightarrow> (case timeNow e (s\<lparr>prefetchQueue := q\<rparr>) of (t, s1) \<Rightarrow> (d < t, s1))) of
        (late, s1) \<Rightarrow>
          if late then drainQueue e q s1
          else
            (case prefetchObjs e (bucket fwd) (objnames fwd) s1 of
               Inl p \<Rightarrow> Inl p
             | Inr s2 \<Rightarrow> drainQueue e q (sendDone (donec fwd) s2)))"

definition setEtime :: "nat \<Rightarrow> int \<Rightarrow> tstate \<Rightarrow> tstate" where
  "setEtime i t s =
     s\<lparr>xactinp :=
         map (\<lambda>x. case x of
                     XactPrefetch y \<Rightarrow>
                       if xid y = i then XactPrefetch (y\<lparr>etime := Some t\<rparr>) else x
                   | XactDeleteEvict y \<Rightarrow> x)
           (xactinp s)\<rparr>"

definition doPrefetch :: "env \<Rightarrow> tstate \<Rightarrow> panic + tstate" where
  "doPrefetch e s =
     (case renewPrefetch e (me e) s of
        Inl p \<Rightarrow> Inl p
      | Inr (None, s1) \<Rightarrow> Inr s1
      | Inr (Some xpre, s1) \<Rightarrow>
          (case drainQueue e (prefetchQueue s1) s1 of
             Inl p \<Rightarrow> Inl p
           | Inr s2 \<Rightarrow>
               (case timeNow e s2 of
                  (t, s3) \<Rightarrow> Inr (xdel (xid xpre) (setEtime (xid xpre) t s3)))))"

text \<open>
  \<open>addPrefetchList\<close> sends the batch on the bounded queue; the send on a full queue does
  not return in the model.
\<close>

definition addPrefetchList :: "env \<Rightarrow> listf" where
  "addPrefetchList e objs bkt dl dn s =
     (if islocal e bkt then (OpReturned (Some (ErrLocalPrefetch bkt)), s)
      else
        (case absDeadline e dl s of
           (absdeadline, s1) \<Rightarrow>
             if prefetchChanSize \<le> length (prefetchQueue s1) then (OpBlockedOnQueue, s1)
             else
               (OpReturned None,
                emit (EvEnqueue bkt objs)
                  (s1\<lparr>prefetchQueue :=
                        prefetchQueue s1 @
                          [\<lparr>objnames = objs, bucket = bkt, deadline = absdeadline,
                            donec = dn\<rparr>]\<rparr>))))"

definition addPrefetchRange :: "env \<Rightarrow> rangef" where
  "addPrefetchRange e bkt prefix regex mn mx dl dn s =
     (if islocal e bkt then (OpReturned (Some (ErrLocalPrefetch bkt)), s)
      else
        (case getListFromRange e bkt prefix regex mn mx s of
           (Inl err, s1) \<Rightarrow> (OpReturned (Some err), s1)
         | (Inr objs, s1) \<Rightarrow> addPrefetchList e objs bkt dl dn s1))"

definition prefetchList :: "env \<Rightarrow> string list option \<Rightarrow> ListMsg \<Rightarrow> tstate \<Rightarrow> hstatus \<times> tstate" where
  "prefetchList e apitems prefetchMsg s =
     listOperation e apitems prefetchMsg (addPrefetchList e) s"


section \<open>Notions used to state the properties\<close>

text \<open>
  What it means for a string to be a base-10 integer that fits 64 bits: an optional sign,
  then at least one digit, the value within the range of \<open>int64\<close>.
\<close>

definition decimalValue :: "nat \<Rightarrow> string \<Rightarrow> nat" where
  "decimalValue n ds = foldl (\<lambda>a c. a * 10 + digitVal c) n ds"

definition isDecimalInt64 :: "string \<Rightarrow> int \<Rightarrow> bool" where
  "isDecimalInt64 s i =
     (\<exists>sgn ds. s = sgn @ ds \<and> (sgn = [] \<or> sgn = ''+'' \<or> sgn = ''-'') \<and> ds \<noteq> [] \<and>
        (\<forall>c \<in> set ds. isDigit c) \<and>
        i = (if sgn = ''-'' then - int (decimalValue 0 ds) else int (decimalValue 0 ds)) \<and>
        - 9223372036854775808 \<le> i \<and> i \<le> 9223372036854775807)"

text \<open>An example target: its collaborators, and a state with nothing registered or queued.\<close>

definition exSelf :: daemonInfo where
  "exSelf = \<lparr>DaemonID = ''t1'', NodeIPAddr = ''10.0.0.1'', DaemonPort = ''8081''\<rparr>"

definition exOther :: daemonInfo where
  "exOther = \<lparr>DaemonID = ''t2'', NodeIPAddr = ''10.0.0.2'', DaemonPort = ''8081''\<rparr>"

definition exRegexp :: regexp where
  "exRegexp s = Some (takeWhile isDigit (dropWhile (\<lambda>c. \<not> isDigit c) s), [])"

definition exEnv :: env where
  "exEnv =
     \<lparr>si = exSelf,
      me = \<lparr>starttime = 0\<rparr>,
      HrwTarget = (\<lambda>b obj. if take 1 obj = ''x'' then (Some exOther, []) else (Some exSelf, [])),
      islocal = (\<lambda>b. b = ''local''),
      prepareLocalObjectList =
        (\<lambda>b m. Inr \<lparr>Entries = [\<lparr>Name = ''obj1''\<rparr>, \<lparr>Name = ''xobj2''\<rparr>], PageMarker = []\<rparr>),
      listbucket = (\<lambda>b m. (''page'', [], 0)),
      Unmarshal =
        (\<lambda>js. Inr \<lparr>Entries = [\<lparr>Name = ''obj1''\<rparr>, \<lparr>Name = ''obj12''\<rparr>], PageMarker = []\<rparr>),
      Compile = (\<lambda>r. Inr exRegexp),
      fildelete = (\<lambda>b obj ev. if obj = ''bad'' then Some (ErrStore ''bad'') else None),
      lookupLocally = (\<lambda>b obj. (True, 0, [], [])),
      ValidateWarmGet = False,
      versioningConfigured = (\<lambda>b. False),
      checkCloudVersion = (\<lambda>b obj v. (False, [], 0)),
      coldget =
        (\<lambda>b obj p. if obj = ''bad'' then (None, ''cloud failure'', 500)
                   else (Some \<lparr>size = 10\<rparr>, [], 0)),
      verbose4 = False,
      now = (\<lambda>k. 1000 + int k),
      aborted = (\<lambda>x i. False)\<rparr>"

definition exState :: tstate where
  "exState =
     \<lparr>xactinp = [], nextid = 1, prefetchQueue = [], stats = (\<lambda>n. 0), trace = [],
      clock = 0, nchan = 0\<rparr>"

definition exListMsg :: "string list \<Rightarrow> bool \<Rightarrow> ListMsg" where
  "exListMsg objs w = \<lparr>Deadline = 0, Wait = w, Objnames = objs\<rparr>"

definition exRangeMsg :: "string \<Rightarrow> bool \<Rightarrow> RangeMsg" where
  "exRangeMsg r w =
     \<lparr>Deadline = 0, Wait = w, Prefix = ''obj'', Regex = ''[0-9]+'', Range = r\<rparr>"

text \<open>
  Ownership as the filter states it: \<open>HrwTarget\<close> names a target and it is the target
  itself. \<open>hrwSucceeds\<close>: the call returns a target and an empty error string.
\<close>

definition ownedBySelf :: "env \<Rightarrow> string \<Rightarrow> string \<Rightarrow> bool" where
  "ownedBySelf e bkt obj =
     (case fst (HrwTarget e bkt obj) of
        None \<Rightarrow> False
      | Some d \<Rightarrow> DaemonID d = DaemonID (si e))"

definition hrwSucceeds :: "env \<Rightarrow> string \<Rightarrow> string \<Rightarrow> bool" where
  "hrwSucceeds e bkt obj =
     (case HrwTarget e bkt obj of
        (Some d, errstr) \<Rightarrow> errstr = []
      | (None, errstr) \<Rightarrow> False)"


fun isLookupOrSend :: "event \<Rightarrow> bool" where
  "isLookupOrSend (EvLookupLocally b obj) = True"
| "isLookupOrSend (EvSend c) = True"
| "isLookupOrSend ev = False"

definition coldgetOk :: "env \<Rightarrow> bool" where
  "coldgetOk e =
     (\<forall>b obj. case coldget e b obj True of
                 (props, errstr, code) \<Rightarrow> errstr = [] \<longrightarrow> props \<noteq> None)"

fun processed :: "env \<Rightarrow> nat \<Rightarrow> filesWithDeadline list \<Rightarrow> filesWithDeadline list" where
  "processed e k [] = []"
| "processed e k (fwd # q) =
     (case deadline fwd of
        None \<Rightarrow> fwd # processed e k q
      | Some d \<Rightarrow>
          if d < now e k then processed e (Suc k) q else fwd # processed e (Suc k) q)"

definition batchEvents :: "filesWithDeadline \<Rightarrow> event list" where
  "batchEvents fwd =
     map (EvLookupLocally (bucket fwd)) (objnames fwd) @
     (case donec fwd of None \<Rightarrow> [] | Some c \<Rightarrow> [EvSend c])"

definition steps :: "tstate \<Rightarrow> event list \<Rightarrow> tstate \<Rightarrow> bool" where
  "steps s tr s' \<longleftrightarrow>
     trace s' = trace s @ tr \<and> clock s' = clock s \<and> xactinp s' = xactinp s \<and>
     nextid s' = nextid s \<and> stats s' ''numerr'' = stats s ''numerr'' \<and>
     (\<forall>ev \<in> set tr. \<forall>x. ev \<noteq> EvXactDel x)"

definition drained :: "env \<Rightarrow> filesWithDeadline list \<Rightarrow> tstate \<Rightarrow> event list \<Rightarrow> tstate \<Rightarrow> bool" where
  "drained e q s tr s' \<longleftrightarrow>
     trace s' = trace s @ tr \<and> xactinp s' = xactinp s \<and> nextid s' = nextid s \<and>
     stats s' ''numerr'' = stats s ''numerr'' \<and> (\<forall>ev \<in> set tr. \<forall>x. ev \<noteq> EvXactDel x) \<and>
     filter isLookupOrSend tr = concat (map batchEvents (processed e (clock s) q))"

definition exBatch :: filesWithDeadline where
  "exBatch = \<lparr>objnames = [''a'', ''bad'', ''c''], bucket = ''cloud'', deadline = None,
              donec = Some 7\<rparr>"

definition exQueued :: tstate where
  "exQueued = exState\<lparr>prefetchQueue := [exBatch]\<rparr>"

text \<open>
  A target on which prefetch meets every kind of failure, by the name of the object: the
  lookup of "lost" fails; "warm" and "stale" are present with a version, the check of the
  cloud version of "warm" fails and that of "stale" finds the version changed; the lookup
  of "torn" fails and asks for a cold get; the cold gets of "bad", "torn" and "stale" fail,
  and the cold get of "busy" returns "skip".
\<close>

definition exFailEnv :: env where
  "exFailEnv =
     exEnv\<lparr>lookupLocally :=
             (\<lambda>b obj. if obj = ''lost'' then (False, 0, [], ''lookup failure'')
                       else if obj = ''warm'' then (False, 10, ''v1'', [])
                       else if obj = ''stale'' then (False, 10, ''v2'', [])
                       else if obj = ''torn'' then (True, 0, [], ''lookup failure'')
                       else (True, 0, [], [])),
           ValidateWarmGet := True,
           versioningConfigured := (\<lambda>b. True),
           checkCloudVersion :=
             (\<lambda>b obj v. if v = ''v1'' then (False, ''version check failure'', 500)
                         else (True, [], 0)),
           coldget :=
             (\<lambda>b obj p. if obj = ''bad'' \<or> obj = ''torn'' \<or> obj = ''stale''
                         then (None, ''cloud failure'', 500)
                         else if obj = ''busy'' then (None, ''skip'', 0)
                         else (Some \<lparr>size = 10\<rparr>, [], 0))\<rparr>"

fun isLookup :: "event \<Rightarrow> bool" where
  "isLookup (EvLookupLocally b obj) = True"
| "isLookup ev = False"

section \<open>Cluster-meta discovery\<close>

text \<open>
  The messages of the discovery endpoint, as the test of \<open>discoverClusterMeta\<close> builds
  them. The version field of the bucket metadata is \<open>Version\<close> in the source as well; it
  is \<open>BVersion\<close> here to keep the two apart. A peer answers its k-th call with a failure
  or with a message.
\<close>

record Smap =
  Tmap :: "(string \<times> daemonInfo) list"
  Pmap :: "(string \<times> daemonInfo) list"
  Version :: int

record bucketMD =
  BVersion :: int

record SmapVoteMsg =
  VoteInProgress :: bool
  Smap :: "Smap option"
  BucketMD :: "bucketMD option"

datatype response = Failed | Replied SmapVoteMsg

text \<open>
  Modelled from the spec: the querying of the peers inside \<open>discoverClusterMeta\<close>, whose
  source is not among the files (only its test is). Each hinted peer is queried until the
  deadline, a peer that fails or reports a vote in progress being retried at the retry
  interval. The deadline and the interval enter as \<open>rounds\<close>, the number of calls to one
  peer that fit before the deadline. \<open>received\<close> lists the responses that arrive.
\<close>

fun queryPeer :: "(nat \<Rightarrow> response) \<Rightarrow> nat \<Rightarrow> nat \<Rightarrow> response list" where
  "queryPeer peer 0 k = []"
| "queryPeer peer (Suc n) k =
     (case peer k of
        Failed \<Rightarrow> Failed # queryPeer peer n (Suc k)
      | Replied msg \<Rightarrow>
          if VoteInProgress msg then Replied msg # queryPeer peer n (Suc k)
          else [Replied msg])"

definition hinted :: "Smap \<Rightarrow> string list" where
  "hinted hint = map fst (Pmap hint) @ map fst (Tmap hint)"

definition received :: "Smap \<Rightarrow> (string \<Rightarrow> nat \<Rightarrow> response) \<Rightarrow> nat \<Rightarrow> response list" where
  "received hint peers rounds = concat (map (\<lambda>i. queryPeer (peers i) rounds 0) (hinted hint))"

text \<open>
  Modelled from the spec: the tally of \<open>discoverClusterMeta\<close>. The maps of a response with
  a vote in progress are ignored; a version of 0 counts as absent for that component
  only; the Smap of maximal version is kept and, independently, the bucket metadata of
  maximal version, the earlier one on a tie.
\<close>

definition maxVer :: "('a \<Rightarrow> int) \<Rightarrow> 'a option \<Rightarrow> 'a option \<Rightarrow> 'a option" where
  "maxVer ver cur new =
     (case new of
        None \<Rightarrow> cur
      | Some n \<Rightarrow>
          if ver n = 0 then cur
          else (case cur of
                  None \<Rightarrow> Some n
                | Some c \<Rightarrow> if ver c < ver n then Some n else Some c))"

fun tally :: "Smap option \<times> bucketMD option \<Rightarrow> response \<Rightarrow> Smap option \<times> bucketMD option" where
  "tally (ms, mb) Failed = (ms, mb)"
| "tally (ms, mb) (Replied msg) =
     (if VoteInProgress msg then (ms, mb)
      else (maxVer Version ms (Smap msg), maxVer BVersion mb (BucketMD msg)))"

text \<open>
  Modelled from the spec: \<open>discoverClusterMeta\<close>, which is missing from the sources: the
  tally over the responses received from the hinted peers before the deadline.
\<close>

definition discoverClusterMeta ::
  "Smap \<Rightarrow> (string \<Rightarrow> nat \<Rightarrow> response) \<Rightarrow> nat \<Rightarrow> Smap option \<times> bucketMD option"
where
  "discoverClusterMeta hint peers rounds = foldl tally (None, None) (received hint peers rounds)"

text \<open>
  What the result is measured against: the instances of one component in the responses
  that reported no vote in progress and a version other than 0, and what it means to be
  an instance of maximal version among them (or none when there is none).
\<close>

fun usable :: "(SmapVoteMsg \<Rightarrow> 'a option) \<Rightarrow> ('a \<Rightarrow> int) \<Rightarrow> response \<Rightarrow> 'a list" where
  "usable part ver Failed = []"
| "usable part ver (Replied msg) =
     (case part msg of
        None \<Rightarrow> []
      | Some m \<Rightarrow> if \<not> VoteInProgress msg \<and> ver m \<noteq> 0 then [m] else [])"

definition seen :: "(SmapVoteMsg \<Rightarrow> 'a option) \<Rightarrow> ('a \<Rightarrow> int) \<Rightarrow> response list \<Rightarrow> 'a list" where
  "seen part ver rs = concat (map (usable part ver) rs)"

definition isMaxVer :: "('a \<Rightarrow> int) \<Rightarrow> 'a list \<Rightarrow> 'a option \<Rightarrow> bool" where
  "isMaxVer ver ms r =
     (case r of
        None \<Rightarrow> ms = []
      | Some m \<Rightarrow> m \<in> set ms \<and> (\<forall>m' \<in> set ms. ver m' \<le> ver m))"

text \<open>
  The handlers of \<open>TestDiscoverServers\<close>; the call counter starts at 0 here, at 1 in the
  test.
\<close>

definition discoverServerDefaultHandler :: "int \<Rightarrow> int \<Rightarrow> nat \<Rightarrow> response" where
  "discoverServerDefaultHandler sv lv cnt =
     Replied \<lparr>VoteInProgress = False,
              Smap = Some \<lparr>Tmap = [], Pmap = [], Version = sv\<rparr>,
              BucketMD = Some \<lparr>BVersion = lv\<rparr>\<rparr>"

definition discoverServerVoteOnceHandler :: "int \<Rightarrow> int \<Rightarrow> nat \<Rightarrow> response" where
  "discoverServerVoteOnceHandler sv lv cnt =
     Replied \<lparr>VoteInProgress = (cnt = 0),
              Smap = Some \<lparr>Tmap = [], Pmap = [], Version = sv\<rparr>,
              BucketMD = Some \<lparr>BVersion = lv\<rparr>\<rparr>"

definition discoverServerFailTwiceHandler :: "int \<Rightarrow> int \<Rightarrow> nat \<Rightarrow> response" where
  "discoverServerFailTwiceHandler sv lv cnt =
     (if 2 \<le> cnt then
        Replied \<lparr>VoteInProgress = False,
                 Smap = Some \<lparr>Tmap = [], Pmap = [], Version = sv\<rparr>,
                 BucketMD = Some \<lparr>BVersion = lv\<rparr>\<rparr>
      else Failed)"

definition discoverServerAlwaysFailHandler :: "int \<Rightarrow> int \<Rightarrow> nat \<Rightarrow> response" where
  "discoverServerAlwaysFailHandler sv lv cnt = Failed"

definition discoverServerVoteInProgressHandler :: "int \<Rightarrow> int \<Rightarrow> nat \<Rightarrow> response" where
  "discoverServerVoteInProgressHandler sv lv cnt =
     Replied \<lparr>VoteInProgress = True,
              Smap = Some \<lparr>Tmap = [], Pmap = [], Version = 12345\<rparr>,
              BucketMD = Some \<lparr>BVersion = 67890\<rparr>\<rparr>"

definition exInfo :: "string \<Rightarrow> daemonInfo" where
  "exInfo i = \<lparr>DaemonID = i, NodeIPAddr = ''127.0.0.1'', DaemonPort = ''8080''\<rparr>"

definition exHint :: Smap where
  "exHint = \<lparr>Tmap = [(''t1'', exInfo ''t1''), (''t2'', exInfo ''t2'')], Pmap = [], Version = 0\<rparr>"

definition versions :: "Smap option \<times> bucketMD option \<Rightarrow> int \<times> int" where
  "versions r =
     (case fst r of None \<Rightarrow> 0 | Some m \<Rightarrow> Version m,
      case snd r of None \<Rightarrow> 0 | Some b \<Rightarrow> BVersion b)"

text \<open>The hint map of a test case: proxies go to \<open>Pmap\<close>, targets to \<open>Tmap\<close>.\<close>

definition hintOf :: "(string \<times> bool) list \<Rightarrow> Smap" where
  "hintOf servers =
     \<lparr>Tmap = map (\<lambda>(i, isProxy). (i, exInfo i)) (filter (\<lambda>(i, isProxy). \<not> isProxy) servers),
      Pmap = map (\<lambda>(i, isProxy). (i, exInfo i)) (filter (\<lambda>(i, isProxy). isProxy) servers),
      Version = 0\<rparr>"

section \<open>Facts about the library functions\<close>

lemma Split_nonempty: "Split s \<noteq> []"
  by (induction s) (auto split: list.splits)

lemma Split_no_colon: "CHR '':'' \<notin> set s \<Longrightarrow> Split s = [s]"
  by (induction s) auto

section \<open>strconv.ParseInt accepts exactly the 64-bit base-10 integers\<close>

lemma decimalValue_Cons: "decimalValue n (c # cs) = decimalValue (n * 10 + digitVal c) cs"
  by (simp add: decimalValue_def)

lemma decimalValue_mono: "n \<le> decimalValue n cs"
proof (induction cs arbitrary: n)
  case Nil
  show ?case by (simp add: decimalValue_def)
next
  case (Cons c cs)
  have "n \<le> n * 10 + digitVal c" by simp
  also have "\<dots> \<le> decimalValue (n * 10 + digitVal c) cs" by (rule Cons.IH)
  finally show ?case by (simp add: decimalValue_Cons)
qed

lemma parseUintLoop_ok:
  "parseUintLoop n cs = (v, None) \<longleftrightarrow>
     (\<forall>c \<in> set cs. isDigit c) \<and> v = decimalValue n cs \<and> (cs = [] \<or> v \<le> maxUint64)"
proof (induction cs arbitrary: n)
  case Nil
  show ?case by (auto simp: decimalValue_def)
next
  case (Cons c cs)
  show ?case
  proof (cases "isDigit c")
    case False
    then show ?thesis by simp
  next
    case d: True
    show ?thesis
    proof (cases "cutoff64 \<le> n \<or> maxUint64 < n * 10 + digitVal c")
      case True
      then have big: "maxUint64 < n * 10 + digitVal c"
        by (auto simp: cutoff64_def maxUint64_def)
      have "n * 10 + digitVal c \<le> decimalValue (n * 10 + digitVal c) cs"
        by (rule decimalValue_mono)
      with big have "maxUint64 < decimalValue n (c # cs)"
        by (simp add: decimalValue_Cons)
      with True d show ?thesis by auto
    next
      case False
      then have eq: "parseUintLoop n (c # cs) = parseUintLoop (n * 10 + digitVal c) cs"
        using d by simp
      have small: "n * 10 + digitVal c \<le> maxUint64" using False by simp
      show ?thesis
        unfolding eq Cons.IH decimalValue_Cons using d small
        by (auto simp: decimalValue_def)
    qed
  qed
qed

lemma ParseUint_ok:
  "ParseUint s = (v, None) \<longleftrightarrow>
     s \<noteq> [] \<and> (\<forall>c \<in> set s. isDigit c) \<and> v = decimalValue 0 s \<and> v \<le> maxUint64"
  by (auto simp: ParseUint_def parseUintLoop_ok)

lemma parseUintLoop_err:
  "snd (parseUintLoop n cs) = Some ErrRange \<Longrightarrow> fst (parseUintLoop n cs) = maxUint64"
  by (induction cs arbitrary: n) (auto split: if_splits)

lemma not_digit_sign: "\<not> isDigit CHR ''+''" "\<not> isDigit CHR ''-''"
  by (simp_all add: isDigit_def)

lemma ParseUint_cases:
  obtains (ok) v where "ParseUint s = (v, None)"
  | (syn) v where "ParseUint s = (v, Some ErrSyntax)"
  | (rng) "ParseUint s = (maxUint64, Some ErrRange)"
proof (cases "ParseUint s")
  case (Pair v err)
  show ?thesis
  proof (cases err)
    case None
    with Pair ok show ?thesis by simp
  next
    case (Some er)
    show ?thesis
    proof (cases er)
      case ErrSyntax
      with Pair Some syn show ?thesis by simp
    next
      case ErrRange
      with Pair Some have "snd (parseUintLoop 0 s) = Some ErrRange"
        by (auto simp: ParseUint_def split: if_splits)
      then have "fst (parseUintLoop 0 s) = maxUint64" by (rule parseUintLoop_err)
      with Pair Some ErrRange rng show ?thesis
        by (auto simp: ParseUint_def split: if_splits)
    qed
  qed
qed

lemma ParseInt_unsigned:
  assumes "c \<noteq> CHR ''+''" "c \<noteq> CHR ''-''"
  shows "ParseInt (c # cs) = (i, None) \<longleftrightarrow>
     (\<exists>v. ParseUint (c # cs) = (v, None) \<and> i = int v \<and> v < 9223372036854775808)"
  using assms
  by (cases "c # cs" rule: ParseUint_cases)
     (auto simp: ParseInt_def Let_def maxUint64_def)

lemma ParseInt_plus:
  "ParseInt (CHR ''+'' # cs) = (i, None) \<longleftrightarrow>
     (\<exists>v. ParseUint cs = (v, None) \<and> i = int v \<and> v < 9223372036854775808)"
  by (cases cs rule: ParseUint_cases)
     (auto simp: ParseInt_def Let_def maxUint64_def)

lemma ParseInt_minus:
  "ParseInt (CHR ''-'' # cs) = (i, None) \<longleftrightarrow>
     (\<exists>v. ParseUint cs = (v, None) \<and> i = - int v \<and> v \<le> 9223372036854775808)"
  by (cases cs rule: ParseUint_cases)
     (auto simp: ParseInt_def Let_def maxUint64_def)

lemma isDecimalInt64_alt:
  "isDecimalInt64 s i \<longleftrightarrow>
     (s \<noteq> [] \<and> (\<forall>c \<in> set s. isDigit c) \<and> i = int (decimalValue 0 s) \<and>
        i \<le> 9223372036854775807) \<or>
     (\<exists>ds. s = CHR ''+'' # ds \<and> ds \<noteq> [] \<and> (\<forall>c \<in> set ds. isDigit c) \<and>
        i = int (decimalValue 0 ds) \<and> i \<le> 9223372036854775807) \<or>
     (\<exists>ds. s = CHR ''-'' # ds \<and> ds \<noteq> [] \<and> (\<forall>c \<in> set ds. isDigit c) \<and>
        i = - int (decimalValue 0 ds) \<and> - 9223372036854775808 \<le> i)"
  (is "?L \<longleftrightarrow> ?A \<or> ?B \<or> ?C")
proof
  assume ?L
  then obtain sgn ds where h: "s = sgn @ ds" "sgn = [] \<or> sgn = ''+'' \<or> sgn = ''-''" "ds \<noteq> []"
      "\<forall>c \<in> set ds. isDigit c"
      "i = (if sgn = ''-'' then - int (decimalValue 0 ds) else int (decimalValue 0 ds))"
      "- 9223372036854775808 \<le> i" "i \<le> 9223372036854775807"
    unfolding isDecimalInt64_def by blast
  from h(2) consider "sgn = []" | "sgn = ''+''" | "sgn = ''-''" by blast
  then show "?A \<or> ?B \<or> ?C"
  proof cases
    case 1
    with h show ?thesis by simp
  next
    case 2
    with h show ?thesis by simp
  next
    case 3
    with h show ?thesis by simp
  qed
next
  assume "?A \<or> ?B \<or> ?C"
  then consider ?A | ?B | ?C by blast
  then show ?L
  proof cases
    case 1
    then show ?thesis unfolding isDecimalInt64_def
      by (intro exI [of _ "[]"] exI [of _ s]) simp
  next
    case 2
    then obtain ds where "s = CHR ''+'' # ds" "ds \<noteq> []" "\<forall>c \<in> set ds. isDigit c"
      "i = int (decimalValue 0 ds)" "i \<le> 9223372036854775807" by blast
    then show ?thesis unfolding isDecimalInt64_def
      by (intro exI [of _ "''+''"] exI [of _ ds]) simp
  next
    case 3
    then obtain ds where "s = CHR ''-'' # ds" "ds \<noteq> []" "\<forall>c \<in> set ds. isDigit c"
      "i = - int (decimalValue 0 ds)" "- 9223372036854775808 \<le> i" by blast
    then show ?thesis unfolding isDecimalInt64_def
      by (intro exI [of _ "''-''"] exI [of _ ds]) simp
  qed
qed

lemma ParseInt_ok_iff: "ParseInt s = (i, None) \<longleftrightarrow> isDecimalInt64 s i"
proof (cases s)
  case Nil
  then show ?thesis by (simp add: ParseInt_def isDecimalInt64_alt)
next
  case (Cons c cs)
  consider (plus) "c = CHR ''+''" | (minus) "c = CHR ''-''"
    | (digit) "c \<noteq> CHR ''+''" "c \<noteq> CHR ''-''" by blast
  then show ?thesis
  proof cases
    case plus
    have "\<not> isDigit c" using plus not_digit_sign by simp
    then show ?thesis
      unfolding Cons isDecimalInt64_alt using plus
      by (auto simp: ParseInt_plus ParseUint_ok maxUint64_def)
  next
    case minus
    have "\<not> isDigit c" using minus not_digit_sign by simp
    then show ?thesis
      unfolding Cons isDecimalInt64_alt using minus
      by (auto simp: ParseInt_minus ParseUint_ok maxUint64_def)
  next
    case digit
    then show ?thesis
      unfolding Cons isDecimalInt64_alt
      by (auto simp: ParseInt_unsigned ParseUint_ok maxUint64_def)
  qed
qed

lemma ParseInt_eval:
  "ParseInt ''7'' = (7, None)" "ParseInt ''12'' = (12, None)" "ParseInt ''3'' = (3, None)"
  "ParseInt ''a'' = (0, Some ErrSyntax)"
  by (simp_all add: ParseInt_def ParseUint_def isDigit_def digitVal_def maxUint64_def
      cutoff64_def)

section \<open>parseRange\<close>

text \<open>
  Claim C6. parseRange of the empty string is (0,0), of ":5" is (0,5), of "3:" is (3,0)
  and of "3:5" is (3,5), each time with no error.
\<close>

theorem parseRange_examples:
  "parseRange '''' = Inr (0, 0, None) \<and>
   parseRange '':5'' = Inr (0, 5, None) \<and>
   parseRange ''3:'' = Inr (3, 0, None) \<and>
   parseRange ''3:5'' = Inr (3, 5, None)"
  by (simp add: parseRange_def parseBound_def ParseInt_def ParseUint_def isDigit_def
      digitVal_def maxUint64_def cutoff64_def)

text \<open>
  Claim C7. A non-empty range string without a colon whose text parses as a number makes
  parseRange index ranges[1] on a split of length one: the index is out of range. The
  bare number "3" is such a string.
\<close>

theorem parseRange_no_colon_panics:
  assumes "rangestr \<noteq> []" and "CHR '':'' \<notin> set rangestr"
    and "snd (ParseInt rangestr) = None"
  shows "parseRange rangestr = Inl (IndexOutOfRange 1 1)"
proof -
  have s: "Split rangestr = [rangestr]"
    using assms(2) by (rule Split_no_colon)
  obtain mn where p: "ParseInt rangestr = (mn, None)"
    using assms(3) by (cases "ParseInt rangestr") auto
  show ?thesis
    using assms(1) s p by (simp add: parseRange_def parseBound_def)
qed

theorem parseRange_no_colon_panics_witness:
  "''3'' \<noteq> [] \<and> CHR '':'' \<notin> set ''3'' \<and> snd (ParseInt ''3'') = None \<and>
   parseRange ''3'' = Inl (IndexOutOfRange 1 1)"
proof -
  have a: "''3'' \<noteq> []" by simp
  have b: "CHR '':'' \<notin> set ''3''" by simp
  have c: "snd (ParseInt ''3'') = None"
    by (simp add: ParseInt_def ParseUint_def isDigit_def digitVal_def maxUint64_def
        cutoff64_def)
  show ?thesis
    using a b c parseRange_no_colon_panics [OF a b c] by simp
qed

section \<open>acceptRegexRange\<close>

lemma isDecimalInt64_unique: "isDecimalInt64 s i \<Longrightarrow> isDecimalInt64 s j \<Longrightarrow> i = j"
  unfolding ParseInt_ok_iff [symmetric] by simp

lemma acceptRegexRange_iff:
  "acceptRegexRange name prefix re mn mx \<longleftrightarrow>
     (\<exists>m subs. re (TrimPrefix name prefix) = Some (m, subs) \<and>
        (m = [] \<or> (\<exists>i. ParseInt m = (i, None) \<and> (mn = 0 \<or> mn \<le> i) \<and> (mx = 0 \<or> i \<le> mx))))"
  by (auto simp: acceptRegexRange_def Let_def split: option.splits prod.splits)

text \<open>
  Claim C5. acceptRegexRange is true exactly when the regular expression matches the name
  stripped of the prefix and the match is either empty or a base-10 integer (as
  strconv.ParseInt reads it: optional sign, digits, within 64 bits) that is at least min
  unless min is 0 and at most max unless max is 0. So a non-empty match that is no such
  integer, or is one outside the bounds, gives false. The function reads nothing but its
  arguments, so the same arguments give the same answer.
\<close>

theorem acceptRegexRange_spec:
  "(acceptRegexRange name prefix re mn mx \<longleftrightarrow>
      (\<exists>m subs. re (TrimPrefix name prefix) = Some (m, subs) \<and>
         (m = [] \<or>
          (\<exists>i. isDecimalInt64 m i \<and> (mn = 0 \<or> mn \<le> i) \<and> (mx = 0 \<or> i \<le> mx))))) \<and>
   (\<forall>m subs i. re (TrimPrefix name prefix) = Some (m, subs) \<longrightarrow> m \<noteq> [] \<longrightarrow>
      ((\<forall>j. \<not> isDecimalInt64 m j) \<or>
       (isDecimalInt64 m i \<and> \<not> ((mn = 0 \<or> mn \<le> i) \<and> (mx = 0 \<or> i \<le> mx)))) \<longrightarrow>
      \<not> acceptRegexRange name prefix re mn mx)"
proof (intro conjI allI impI)
  show "acceptRegexRange name prefix re mn mx \<longleftrightarrow>
      (\<exists>m subs. re (TrimPrefix name prefix) = Some (m, subs) \<and>
         (m = [] \<or>
          (\<exists>i. isDecimalInt64 m i \<and> (mn = 0 \<or> mn \<le> i) \<and> (mx = 0 \<or> i \<le> mx))))"
    unfolding acceptRegexRange_iff ParseInt_ok_iff ..
next
  fix m subs i
  assume match: "re (TrimPrefix name prefix) = Some (m, subs)" and ne: "m \<noteq> []"
    and bad: "(\<forall>j. \<not> isDecimalInt64 m j) \<or>
       (isDecimalInt64 m i \<and> \<not> ((mn = 0 \<or> mn \<le> i) \<and> (mx = 0 \<or> i \<le> mx)))"
  show "\<not> acceptRegexRange name prefix re mn mx"
  proof
    assume "acceptRegexRange name prefix re mn mx"
    then obtain k where k: "isDecimalInt64 m k" "mn = 0 \<or> mn \<le> k" "mx = 0 \<or> k \<le> mx"
      unfolding acceptRegexRange_iff ParseInt_ok_iff using match ne by auto
    from bad show False
    proof
      assume "\<forall>j. \<not> isDecimalInt64 m j"
      with k(1) show False by blast
    next
      assume b: "isDecimalInt64 m i \<and> \<not> ((mn = 0 \<or> mn \<le> i) \<and> (mx = 0 \<or> i \<le> mx))"
      then have "i = k" using k(1) isDecimalInt64_unique by blast
      with b k show False by blast
    qed
  qed
qed

theorem acceptRegexRange_spec_witness:
  "acceptRegexRange ''obj7'' ''obj'' exRegexp 5 9 \<and>
   exRegexp (TrimPrefix ''obj12'' ''obj'') = Some (''12'', []) \<and> isDecimalInt64 ''12'' 12 \<and>
   \<not> acceptRegexRange ''obj12'' ''obj'' exRegexp 5 9"
proof -
  have m7: "exRegexp (TrimPrefix ''obj7'' ''obj'') = Some (''7'', [])"
    by (simp add: exRegexp_def TrimPrefix_def isDigit_def)
  have d7: "isDecimalInt64 ''7'' 7"
    unfolding ParseInt_ok_iff [symmetric] by (rule ParseInt_eval)
  have m12: "exRegexp (TrimPrefix ''obj12'' ''obj'') = Some (''12'', [])"
    by (simp add: exRegexp_def TrimPrefix_def isDigit_def)
  have d12: "isDecimalInt64 ''12'' 12"
    unfolding ParseInt_ok_iff [symmetric] by (rule ParseInt_eval)
  have yes: "acceptRegexRange ''obj7'' ''obj'' exRegexp 5 9"
    using acceptRegexRange_spec [of "''obj7''" "''obj''" exRegexp 5 9] m7 d7 by auto
  have no: "\<not> acceptRegexRange ''obj12'' ''obj'' exRegexp 5 9"
    using acceptRegexRange_spec [of "''obj12''" "''obj''" exRegexp 5 9] m12 d12 by auto
  show ?thesis using yes m12 d12 no by simp
qed

section \<open>Prefetch on a local bucket\<close>

lemma queue_emit [simp]: "prefetchQueue (emit ev s) = prefetchQueue s"
  by (simp add: emit_def)

lemma queue_statsAdd [simp]: "prefetchQueue (statsAdd n d s) = prefetchQueue s"
  by (simp add: statsAdd_def)


lemma queue_awaitDone [simp]: "prefetchQueue (snd (awaitDone w dn s)) = prefetchQueue s"
  by (simp add: awaitDone_def split: option.splits)

lemma prefetch_local:
  assumes "islocal e bkt"
  shows "addPrefetchList e objs bkt dl dn s = (OpReturned (Some (ErrLocalPrefetch bkt)), s)"
    and "addPrefetchRange e bkt prefix regex mn mx dl dn s =
           (OpReturned (Some (ErrLocalPrefetch bkt)), s)"
  using assms by (simp_all add: addPrefetchList_def addPrefetchRange_def)



section \<open>The back-reference of an xaction\<close>

lemma newDelete_fields:
  "targetrunner (fst (newDelete e s)) = None"
  "xactinp (snd (newDelete e s)) = xactinp s @ [XactDeleteEvict (fst (newDelete e s))]"
  "kind (fst (newDelete e s)) = ActDelete"
  by (simp_all add: newDelete_def uniqueid_def newxactBase_def timeNow_def xadd_def emit_def
      xactBase.extend_def Let_def)

lemma newEvict_fields:
  "targetrunner (fst (newEvict e s)) = None"
  "xactinp (snd (newEvict e s)) = xactinp s @ [XactDeleteEvict (fst (newEvict e s))]"
  "kind (fst (newEvict e s)) = ActEvict"
  by (simp_all add: newEvict_def uniqueid_def newxactBase_def timeNow_def xadd_def emit_def
      xactBase.extend_def Let_def)

lemma tostring_nil: "targetrunner x = None \<Longrightarrow> tostring e x s = Inl NilPointerDereference"
  by (simp add: tostring_def)

lemma tostring_set: "targetrunner x = Some t \<Longrightarrow> \<exists>r. tostring e x s = Inr r"
  by (simp add: tostring_def Let_def split: prod.splits)


lemma renewPrefetch_fresh:
  assumes "findU ActPrefetch s = None"
  shows "renewPrefetch e t s =
     Inr (Some \<lparr>xid = nextid s, kind = ActPrefetch, stime = now e (clock s), etime = None,
                 targetrunner = Some t\<rparr>,
          emit (EvXactAdd (nextid s) ActPrefetch)
            (s\<lparr>nextid := Suc (nextid s), clock := Suc (clock s),
               xactinp := xactinp s @
                 [XactPrefetch \<lparr>xid = nextid s, kind = ActPrefetch, stime = now e (clock s),
                                etime = None, targetrunner = Some t\<rparr>]\<rparr>))"
proof -
  have f: "findU ActPrefetch (s\<lparr>nextid := n\<rparr>) = findU ActPrefetch s" for n
    by (simp add: findU_def)
  show ?thesis
    using assms
    by (simp add: renewPrefetch_def uniqueid_def newxactBase_def timeNow_def xadd_def emit_def
        xactBase.extend_def Let_def)
qed

lemma renewPrefetch_running:
  assumes "findU ActPrefetch s = Some y"
  shows "renewPrefetch e t s \<noteq> Inr (Some x, s1)"
proof (cases y)
  case (XactDeleteEvict z)
  with assms show ?thesis by (simp add: renewPrefetch_def)
next
  case (XactPrefetch z)
  show ?thesis
  proof (cases "tostring e z s")
    case (Inl p)
    with assms XactPrefetch show ?thesis by (simp add: renewPrefetch_def)
  next
    case (Inr r)
    obtain str s2 where "r = (str, s2)" by (cases r)
    with Inr assms XactPrefetch show ?thesis by (simp add: renewPrefetch_def)
  qed
qed

lemma renewPrefetch_new:
  assumes "renewPrefetch e t s = Inr (Some x, s1)"
  shows "targetrunner x = Some t" and "xactinp s1 = xactinp s @ [XactPrefetch x]"
    and "kind x = ActPrefetch"
proof -
  have n: "findU ActPrefetch s = None"
  proof (cases "findU ActPrefetch s")
    case None
    then show ?thesis .
  next
    case (Some y)
    from renewPrefetch_running [OF this] assms show ?thesis by blast
  qed
  have "Inr (Some x, s1) = renewPrefetch e t s" using assms by simp
  also note renewPrefetch_fresh [OF n, of e t]
  finally have x: "x = \<lparr>xid = nextid s, kind = ActPrefetch, stime = now e (clock s),
      etime = None, targetrunner = Some t\<rparr>"
    and s1: "s1 = emit (EvXactAdd (nextid s) ActPrefetch)
            (s\<lparr>nextid := Suc (nextid s), clock := Suc (clock s),
               xactinp := xactinp s @
                 [XactPrefetch \<lparr>xid = nextid s, kind = ActPrefetch, stime = now e (clock s),
                                etime = None, targetrunner = Some t\<rparr>]\<rparr>)"
    by blast+
  show "targetrunner x = Some t" by (simp add: x)
  show "xactinp s1 = xactinp s @ [XactPrefetch x]" by (simp add: x s1 emit_def)
  show "kind x = ActPrefetch" by (simp add: x)
qed

text \<open>
  Claim C10. The xaction that newDelete or newEvict creates and appends to the registry
  has a nil back-reference to the target, so tostring on it, in any state, dereferences a
  nil pointer when it computes the start offset. An xaction that renewPrefetch creates has
  the back-reference set to the target it was given, and tostring on it returns a string.
\<close>

theorem deleteEvict_xaction_has_nil_targetrunner:
  "targetrunner (fst (newDelete e s)) = None \<and>
   xactinp (snd (newDelete e s)) = xactinp s @ [XactDeleteEvict (fst (newDelete e s))] \<and>
   tostring e (fst (newDelete e s)) s' = Inl NilPointerDereference \<and>
   targetrunner (fst (newEvict e s)) = None \<and>
   xactinp (snd (newEvict e s)) = xactinp s @ [XactDeleteEvict (fst (newEvict e s))] \<and>
   tostring e (fst (newEvict e s)) s' = Inl NilPointerDereference \<and>
   (\<forall>x s1. renewPrefetch e t s = Inr (Some x, s1) \<longrightarrow>
      targetrunner x = Some t \<and> xactinp s1 = xactinp s @ [XactPrefetch x] \<and>
      (\<exists>r. tostring e x s' = Inr r))"
proof (intro conjI allI impI)
  show "targetrunner (fst (newDelete e s)) = None" by (rule newDelete_fields)
  show "xactinp (snd (newDelete e s)) = xactinp s @ [XactDeleteEvict (fst (newDelete e s))]"
    by (rule newDelete_fields)
  show "tostring e (fst (newDelete e s)) s' = Inl NilPointerDereference"
    by (rule tostring_nil) (rule newDelete_fields)
  show "targetrunner (fst (newEvict e s)) = None" by (rule newEvict_fields)
  show "xactinp (snd (newEvict e s)) = xactinp s @ [XactDeleteEvict (fst (newEvict e s))]"
    by (rule newEvict_fields)
  show "tostring e (fst (newEvict e s)) s' = Inl NilPointerDereference"
    by (rule tostring_nil) (rule newEvict_fields)
next
  fix x s1
  assume r: "renewPrefetch e t s = Inr (Some x, s1)"
  show "targetrunner x = Some t" by (rule renewPrefetch_new [OF r])
  show "xactinp s1 = xactinp s @ [XactPrefetch x]" by (rule renewPrefetch_new [OF r])
  show "\<exists>r. tostring e x s' = Inr r"
    by (rule tostring_set) (rule renewPrefetch_new [OF r])
qed

lemma exState_no_prefetch: "findU ActPrefetch exState = None"
  by (simp add: findU_def exState_def)

theorem deleteEvict_xaction_has_nil_targetrunner_witness:
  "(\<exists>x s1. renewPrefetch exEnv (me exEnv) exState = Inr (Some x, s1) \<and>
      targetrunner x = Some (me exEnv) \<and> xactinp s1 = [XactPrefetch x] \<and>
      (\<exists>r. tostring exEnv x exState = Inr r)) \<and>
   tostring exEnv (fst (newDelete exEnv exState)) exState = Inl NilPointerDereference"
proof -
  obtain x s1 where r: "renewPrefetch exEnv (me exEnv) exState = Inr (Some x, s1)"
    using renewPrefetch_fresh [OF exState_no_prefetch] by blast
  have q: "xactinp exState = []" by (simp add: exState_def)
  from deleteEvict_xaction_has_nil_targetrunner [of exEnv exState exState "me exEnv"] r q
  show ?thesis by simp
qed

section \<open>rangeOperation after a range string that does not parse\<close>

lemmas parse_eval = ParseInt_def ParseUint_def isDigit_def digitVal_def maxUint64_def
  cutoff64_def parseRange_def parseBound_def

lemmas registry_eval = newDelete_def newEvict_def uniqueid_def newxactBase_def timeNow_def
  xadd_def xdel_def emit_def xactBase.extend_def absDeadline_def sendDone_def Let_def
  ActDelete_def ActEvict_def ActPrefetch_def

lemma parseRange_eval:
  "parseRange ''a:5'' = Inr (0, 0, Some ErrSyntax)"
  by (simp add: parse_eval)

lemma exList: "getListFromRange exEnv ''local'' ''obj'' ''[0-9]+'' 0 0 s = (Inr [''obj1''], s)"
  by (simp add: getListFromRange_def exEnv_def acceptRegexRange_def TrimPrefix_def exRegexp_def
      parse_eval exSelf_def exOther_def)

lemma exDelete:
  "doListEvictDelete exEnv False [''obj1''] ''local'' 0 None exState =
     (OpReturned None,
      exState\<lparr>nextid := 2, clock := 1, trace := [EvXactAdd 1 ''delete'',
          EvFildelete ''local'' ''obj1'' False, EvXactDel 1]\<rparr>)"
  by (simp add: doListEvictDelete_def registry_eval exEnv_def exState_def)

lemma exDelete':
  "doListEvictDelete exEnv False [''obj1''] ''local'' 0 None
      (exState\<lparr>trace := tr\<rparr>) =
     (OpReturned None,
      exState\<lparr>nextid := 2, clock := 1, trace := tr @ [EvXactAdd 1 ''delete'',
          EvFildelete ''local'' ''obj1'' False, EvXactDel 1]\<rparr>)"
  by (simp add: doListEvictDelete_def registry_eval exEnv_def exState_def)

text \<open>
  Claim C8, on the code. The range string "a:5" does not parse. rangeOperation hands the
  parse error to the error handler and goes on: the delete operation runs with the bounds
  (0, 0) that parseRange left, and the object of the bucket that matches is deleted.
\<close>

theorem rangeOperation_runs_after_malformed_range:
  "parseRange ''a:5'' = Inr (0, 0, Some ErrSyntax) \<and>
   fst (deleteRange exEnv (Some [''local'']) (exRangeMsg ''a:5'' False) exState) = HReturned \<and>
   trace (snd (deleteRange exEnv (Some [''local'']) (exRangeMsg ''a:5'' False) exState)) =
     [EvInvalMsg (InvalRange ''a:5'' ErrSyntax), EvXactAdd 1 ''delete'',
      EvFildelete ''local'' ''obj1'' False, EvXactDel 1]"
proof -
  have s0: "emit (EvInvalMsg (InvalRange ''a:5'' ErrSyntax)) exState =
      exState\<lparr>trace := [EvInvalMsg (InvalRange ''a:5'' ErrSyntax)]\<rparr>"
    by (simp add: emit_def exState_def)
  have r: "deleteRange exEnv (Some [''local'']) (exRangeMsg ''a:5'' False) exState =
     (HReturned, exState\<lparr>nextid := 2, clock := 1,
        trace := [EvInvalMsg (InvalRange ''a:5'' ErrSyntax)] @ [EvXactAdd 1 ''delete'',
          EvFildelete ''local'' ''obj1'' False, EvXactDel 1]\<rparr>)"
    by (simp add: deleteRange_def rangeOperation_def exRangeMsg_def parseRange_eval s0
        makeDone_def awaitDone_def doRangeDelete_def doRangeEvictDelete_def exList exDelete')
  show ?thesis by (simp add: r parseRange_eval)
qed

section \<open>The ownership filter\<close>

lemma ownedObjs_acc:
  assumes "\<forall>obj \<in> set objs. hrwSucceeds e bkt obj"
  shows "ownedObjs e bkt objs acc = Kept (acc @ filter (ownedBySelf e bkt) objs)"
  using assms
proof (induction objs arbitrary: acc)
  case Nil
  show ?case by simp
next
  case (Cons obj rest)
  from Cons.prems have h: "hrwSucceeds e bkt obj" by simp
  then obtain d where d: "HrwTarget e bkt obj = (Some d, [])"
    by (auto simp: hrwSucceeds_def split: prod.splits option.splits)
  from Cons.prems have r: "\<forall>obj \<in> set rest. hrwSucceeds e bkt obj" by simp
  show ?case
    using d Cons.IH [OF r] by (simp add: ownedBySelf_def)
qed

lemma ownedObjs_filter:
  assumes "\<forall>obj \<in> set objs. hrwSucceeds e bkt obj"
  shows "ownedObjs e bkt objs [] = Kept (filter (ownedBySelf e bkt) objs)"
  using ownedObjs_acc [OF assms, of "[]"] by simp

lemma listOperation_cong:
  assumes "ownedObjs e bkt (Objnames m1) [] = ownedObjs e bkt (Objnames m2) []"
    and "Wait m1 = Wait m2" and "Deadline m1 = Deadline m2"
  shows "listOperation e (Some (bkt # rest)) m1 op s = listOperation e (Some (bkt # rest)) m2 op s"
proof -
  have unf: "listOperation e (Some (bkt # rest)) m op s =
     (case ownedObjs e bkt (Objnames m) [] of
        HrwError errstr \<Rightarrow> (HReturned, emit (EvInvalMsg (InvalErrstr errstr)) s)
      | HrwPanic p \<Rightarrow> (HPanicked p, s)
      | Kept objs \<Rightarrow>
          if objs \<noteq> [] then
            (case makeDone (Wait m) s of
               (dn, s1) \<Rightarrow>
                 (case op objs bkt (Deadline m) dn s1 of
                    (OpReturned (Some err), s2) \<Rightarrow>
                      awaitDone (Wait m) dn
                        (statsAdd ''numerr'' 1 (emit (EvLogError (LogListOperation err)) s2))
                  | (_, s2) \<Rightarrow> awaitDone (Wait m) dn s2))
          else (HReturned, s))" for m
    by (simp add: listOperation_def)
  show ?thesis unfolding unf assms by (rule refl)
qed

lemma listOperation_drops_silently:
  assumes "\<forall>obj \<in> set (Objnames msg). hrwSucceeds e bkt obj"
  shows "listOperation e (Some (bkt # rest)) msg op s =
         listOperation e (Some (bkt # rest))
           (msg\<lparr>Objnames := filter (ownedBySelf e bkt) (Objnames msg)\<rparr>) op s"
proof (rule listOperation_cong)
  have sub: "\<forall>obj \<in> set (filter (ownedBySelf e bkt) (Objnames msg)). hrwSucceeds e bkt obj"
    using assms by simp
  show "ownedObjs e bkt (Objnames msg) [] =
      ownedObjs e bkt (Objnames (msg\<lparr>Objnames := filter (ownedBySelf e bkt) (Objnames msg)\<rparr>)) []"
    using ownedObjs_filter [OF assms] ownedObjs_filter [OF sub] by simp
qed simp_all

lemma listOperation_runs_on_owned:
  assumes "\<forall>obj \<in> set (Objnames msg). hrwSucceeds e bkt obj"
  shows "listOperation e (Some (bkt # rest)) msg op s =
     (if filter (ownedBySelf e bkt) (Objnames msg) = [] then (HReturned, s)
      else
        (case makeDone (Wait msg) s of
           (dn, s1) \<Rightarrow>
             (case op (filter (ownedBySelf e bkt) (Objnames msg)) bkt (Deadline msg) dn s1 of
                (r, s2) \<Rightarrow>
                  awaitDone (Wait msg) dn
                    (case r of
                       OpReturned (Some err) \<Rightarrow>
                         statsAdd ''numerr'' 1 (emit (EvLogError (LogListOperation err)) s2)
                     | _ \<Rightarrow> s2))))"
  using ownedObjs_filter [OF assms]
  by (simp add: listOperation_def split: prod.splits opresult.splits option.splits)

lemma rangeEntries_acc:
  assumes "\<forall>be \<in> set bes. hrwSucceeds e bkt (Name be)"
  shows "rangeEntries e bkt prefix re mn mx bes acc =
     Inr (acc @ filter (ownedBySelf e bkt)
                  (filter (\<lambda>n. acceptRegexRange n prefix re mn mx) (map Name bes)))"
  using assms
proof (induction bes arbitrary: acc)
  case Nil
  show ?case by simp
next
  case (Cons be rest)
  from Cons.prems have "hrwSucceeds e bkt (Name be)" by simp
  then obtain d where d: "HrwTarget e bkt (Name be) = (Some d, [])"
    by (auto simp: hrwSucceeds_def split: prod.splits option.splits)
  from Cons.prems have r: "\<forall>be \<in> set rest. hrwSucceeds e bkt (Name be)" by simp
  show ?case
    using d Cons.IH [OF r] by (simp add: ownedBySelf_def)
qed


lemma getListFromRange_filter:
  assumes "(if islocal e bkt
            then (prepareLocalObjectList e bkt \<lparr>GetPrefix = prefix, GetPageMarker = []\<rparr>, s)
            else getListFromRangeCloud e bkt \<lparr>GetPrefix = prefix, GetPageMarker = []\<rparr> s)
           = (Inr bl, s1)"
    and "Compile e regex = Inr re"
    and "\<forall>be \<in> set (Entries bl). hrwSucceeds e bkt (Name be)"
  shows "getListFromRange e bkt prefix regex mn mx s =
     (Inr (filter (ownedBySelf e bkt)
             (filter (\<lambda>n. acceptRegexRange n prefix re mn mx) (map Name (Entries bl)))), s1)"
  using assms(1,2) rangeEntries_acc [OF assms(3), of prefix re mn mx "[]"]
  by (simp add: getListFromRange_def)

text \<open>
  Claim C4. When HrwTarget names a target for every object of the list, the objects that
  listOperation keeps are exactly those whose target is the target itself, in the order of
  the list, and the operation is run on exactly that list: with no owned object nothing is
  done and the handler returns; otherwise the done channel is made when Wait is set, and
  the operation, whatever it is, is called once with the owned objects, the bucket and the
  deadline of the message, before any other work. The others are dropped without any
  effect, no error being reported for them: the request behaves as the request that lists
  only the owned objects. The range expansion keeps, among the listed names that
  acceptRegexRange accepts, exactly those with the same owner.
\<close>

theorem ownership_filter:
  "((\<forall>obj \<in> set (Objnames msg). hrwSucceeds e bkt obj) \<longrightarrow>
      ownedObjs e bkt (Objnames msg) [] = Kept (filter (ownedBySelf e bkt) (Objnames msg)) \<and>
      listOperation e (Some (bkt # rest)) msg op s =
        (if filter (ownedBySelf e bkt) (Objnames msg) = [] then (HReturned, s)
         else
           (case makeDone (Wait msg) s of
              (dn, s1) \<Rightarrow>
                (case op (filter (ownedBySelf e bkt) (Objnames msg)) bkt (Deadline msg) dn s1 of
                   (r, s2) \<Rightarrow>
                     awaitDone (Wait msg) dn
                       (case r of
                          OpReturned (Some err) \<Rightarrow>
                            statsAdd ''numerr'' 1 (emit (EvLogError (LogListOperation err)) s2)
                        | _ \<Rightarrow> s2)))) \<and>
      listOperation e (Some (bkt # rest)) msg op s =
        listOperation e (Some (bkt # rest))
          (msg\<lparr>Objnames := filter (ownedBySelf e bkt) (Objnames msg)\<rparr>) op s) \<and>
   ((if islocal e bkt
     then (prepareLocalObjectList e bkt \<lparr>GetPrefix = prefix, GetPageMarker = []\<rparr>, s)
     else getListFromRangeCloud e bkt \<lparr>GetPrefix = prefix, GetPageMarker = []\<rparr> s)
      = (Inr bl, s1) \<longrightarrow>
    Compile e regex = Inr re \<longrightarrow>
    (\<forall>be \<in> set (Entries bl). hrwSucceeds e bkt (Name be)) \<longrightarrow>
      getListFromRange e bkt prefix regex mn mx s =
        (Inr (filter (ownedBySelf e bkt)
                (filter (\<lambda>n. acceptRegexRange n prefix re mn mx) (map Name (Entries bl)))),
         s1))"
proof (intro conjI impI)
  assume h: "\<forall>obj \<in> set (Objnames msg). hrwSucceeds e bkt obj"
  show "ownedObjs e bkt (Objnames msg) [] = Kept (filter (ownedBySelf e bkt) (Objnames msg))"
    by (rule ownedObjs_filter [OF h])
  show "listOperation e (Some (bkt # rest)) msg op s =
        (if filter (ownedBySelf e bkt) (Objnames msg) = [] then (HReturned, s)
         else
           (case makeDone (Wait msg) s of
              (dn, s1) \<Rightarrow>
                (case op (filter (ownedBySelf e bkt) (Objnames msg)) bkt (Deadline msg) dn s1 of
                   (r, s2) \<Rightarrow>
                     awaitDone (Wait msg) dn
                       (case r of
                          OpReturned (Some err) \<Rightarrow>
                            statsAdd ''numerr'' 1 (emit (EvLogError (LogListOperation err)) s2)
                        | _ \<Rightarrow> s2))))"
    by (rule listOperation_runs_on_owned [OF h])
  show "listOperation e (Some (bkt # rest)) msg op s =
        listOperation e (Some (bkt # rest))
          (msg\<lparr>Objnames := filter (ownedBySelf e bkt) (Objnames msg)\<rparr>) op s"
    by (rule listOperation_drops_silently [OF h])
next
  assume "(if islocal e bkt
     then (prepareLocalObjectList e bkt \<lparr>GetPrefix = prefix, GetPageMarker = []\<rparr>, s)
     else getListFromRangeCloud e bkt \<lparr>GetPrefix = prefix, GetPageMarker = []\<rparr> s)
      = (Inr bl, s1)"
    and "Compile e regex = Inr re"
    and "\<forall>be \<in> set (Entries bl). hrwSucceeds e bkt (Name be)"
  then show "getListFromRange e bkt prefix regex mn mx s =
        (Inr (filter (ownedBySelf e bkt)
                (filter (\<lambda>n. acceptRegexRange n prefix re mn mx) (map Name (Entries bl)))),
         s1)"
    by (rule getListFromRange_filter)
qed

lemma exEnv_hrwSucceeds: "hrwSucceeds exEnv bkt obj"
  by (simp add: hrwSucceeds_def exEnv_def)



lemma exOwned:
  "filter (ownedBySelf exEnv ''b'') [''a'', ''xb'', ''c''] = [''a'', ''c'']"
  "filter (ownedBySelf exEnv ''local'')
      (filter (\<lambda>n. acceptRegexRange n ''obj'' exRegexp 0 0) [''obj1'', ''xobj2'']) = [''obj1'']"
  by (simp_all add: ownedBySelf_def exEnv_def exSelf_def exOther_def acceptRegexRange_def
        TrimPrefix_def exRegexp_def parse_eval)

lemma exListing:
  "(if islocal exEnv ''local''
     then (prepareLocalObjectList exEnv ''local'' \<lparr>GetPrefix = ''obj'', GetPageMarker = []\<rparr>,
           exState)
     else getListFromRangeCloud exEnv ''local'' \<lparr>GetPrefix = ''obj'', GetPageMarker = []\<rparr>
            exState)
      = (Inr \<lparr>Entries = [\<lparr>Name = ''obj1''\<rparr>, \<lparr>Name = ''xobj2''\<rparr>], PageMarker = []\<rparr>, exState)"
  "Compile exEnv ''[0-9]+'' = Inr exRegexp"
  by (simp_all add: exEnv_def)


lemma exDeleteAC:
  "doListDelete exEnv [''a'', ''c''] ''b'' 0 None exState =
     (OpReturned None,
      exState\<lparr>nextid := 2, clock := 1,
        trace := [EvXactAdd 1 ''delete'', EvFildelete ''b'' ''a'' False,
                  EvFildelete ''b'' ''c'' False, EvXactDel 1]\<rparr>)"
  by (simp add: doListDelete_def doListEvictDelete_def registry_eval exEnv_def exState_def)

theorem ownership_filter_witness:
  "ownedObjs exEnv ''b'' [''a'', ''xb'', ''c''] [] = Kept [''a'', ''c''] \<and>
   listOperation exEnv (Some [''b'']) (exListMsg [''a'', ''xb'', ''c''] False) (doListDelete exEnv)
       exState =
     (HReturned,
      exState\<lparr>nextid := 2, clock := 1,
        trace := [EvXactAdd 1 ''delete'', EvFildelete ''b'' ''a'' False,
                  EvFildelete ''b'' ''c'' False, EvXactDel 1]\<rparr>) \<and>
   listOperation exEnv (Some [''b'']) (exListMsg [''xb''] False) (doListDelete exEnv) exState =
     (HReturned, exState) \<and>
   listOperation exEnv (Some [''b'']) (exListMsg [''a'', ''xb'', ''c''] False) (doListDelete exEnv)
       exState =
     listOperation exEnv (Some [''b'']) (exListMsg [''a'', ''c''] False) (doListDelete exEnv)
       exState \<and>
   getListFromRange exEnv ''local'' ''obj'' ''[0-9]+'' 0 0 exState = (Inr [''obj1''], exState)"
proof -
  define msg where "msg = exListMsg [''a'', ''xb'', ''c''] False"
  define msgx where "msgx = exListMsg [''xb''] False"
  define bl where
    "bl = \<lparr>Entries = [\<lparr>Name = ''obj1''\<rparr>, \<lparr>Name = ''xobj2''\<rparr>], PageMarker = []\<rparr>"
  have on: "Objnames msg = [''a'', ''xb'', ''c'']" by (simp add: msg_def exListMsg_def)
  have wd: "Wait msg = False" "Deadline msg = 0" by (simp_all add: msg_def exListMsg_def)
  have onx: "Objnames msgx = [''xb'']" by (simp add: msgx_def exListMsg_def)
  have ownx: "filter (ownedBySelf exEnv ''b'') [''xb''] = []"
    by (simp add: ownedBySelf_def exEnv_def exSelf_def exOther_def)
  have upd: "msg\<lparr>Objnames := [''a'', ''c'']\<rparr> = exListMsg [''a'', ''c''] False"
    by (simp add: msg_def exListMsg_def)
  have en: "map Name (Entries bl) = [''obj1'', ''xobj2'']" by (simp add: bl_def)
  have h: "\<forall>obj \<in> set (Objnames msg). hrwSucceeds exEnv ''b'' obj"
    by (simp add: exEnv_hrwSucceeds)
  have hx: "\<forall>obj \<in> set (Objnames msgx). hrwSucceeds exEnv ''b'' obj"
    by (simp add: exEnv_hrwSucceeds)
  have hr: "\<forall>be \<in> set (Entries bl). hrwSucceeds exEnv ''local'' (Name be)"
    by (simp add: exEnv_hrwSucceeds)
  note T1 = ownership_filter [of msg exEnv "''b''" "[]" "doListDelete exEnv" exState
      "''obj''" bl exState "''[0-9]+''" exRegexp 0 0]
  note T2 = ownership_filter [of msg exEnv "''local''" "[]" "doListDelete exEnv" exState
      "''obj''" bl exState "''[0-9]+''" exRegexp 0 0]
  note T3 = ownership_filter [of msgx exEnv "''b''" "[]" "doListDelete exEnv" exState
      "''obj''" bl exState "''[0-9]+''" exRegexp 0 0]
  note L1 = T1 [THEN conjunct1, THEN mp, OF h]
  note L3 = T3 [THEN conjunct1, THEN mp, OF hx]
  have a: "ownedObjs exEnv ''b'' [''a'', ''xb'', ''c''] [] = Kept [''a'', ''c'']"
    using L1 [THEN conjunct1] unfolding on exOwned .
  have r: "listOperation exEnv (Some [''b'']) msg (doListDelete exEnv) exState =
     (HReturned,
      exState\<lparr>nextid := 2, clock := 1,
        trace := [EvXactAdd 1 ''delete'', EvFildelete ''b'' ''a'' False,
                  EvFildelete ''b'' ''c'' False, EvXactDel 1]\<rparr>)"
    using L1 [THEN conjunct2, THEN conjunct1] unfolding on exOwned wd
    by (simp add: makeDone_def awaitDone_def exDeleteAC)
  have rx: "listOperation exEnv (Some [''b'']) msgx (doListDelete exEnv) exState =
     (HReturned, exState)"
    using L3 [THEN conjunct2, THEN conjunct1] unfolding onx ownx by simp
  have b: "listOperation exEnv (Some [''b'']) msg (doListDelete exEnv) exState =
      listOperation exEnv (Some [''b'']) (exListMsg [''a'', ''c''] False) (doListDelete exEnv)
        exState"
    using L1 [THEN conjunct2, THEN conjunct2] unfolding on exOwned upd .
  from T2 hr exListing [folded bl_def] have c:
    "getListFromRange exEnv ''local'' ''obj'' ''[0-9]+'' 0 0 exState =
        (Inr (filter (ownedBySelf exEnv ''local'')
                (filter (\<lambda>n. acceptRegexRange n ''obj'' exRegexp 0 0) (map Name (Entries bl)))),
         exState)"
    by blast
  have c': "getListFromRange exEnv ''local'' ''obj'' ''[0-9]+'' 0 0 exState =
      (Inr [''obj1''], exState)"
    using c unfolding en exOwned .
  from a r [unfolded msg_def] rx [unfolded msgx_def] b [unfolded msg_def] c'
  show ?thesis by (intro conjI)
qed

section \<open>The completion signal\<close>

lemma emit_trace [simp]: "trace (emit ev s) = trace s @ [ev]"
  by (simp add: emit_def)

lemma emit_xactinp [simp]: "xactinp (emit ev s) = xactinp s"
  by (simp add: emit_def)

lemma emit_stats [simp]: "stats (emit ev s) = stats s"
  by (simp add: emit_def)

lemma emit_clock [simp]: "clock (emit ev s) = clock s"
  by (simp add: emit_def)

lemma timeNow_fields [simp]:
  "trace (snd (timeNow e s)) = trace s"
  "xactinp (snd (timeNow e s)) = xactinp s"
  "stats (snd (timeNow e s)) = stats s"
  "prefetchQueue (snd (timeNow e s)) = prefetchQueue s"
  by (simp_all add: timeNow_def)


lemma evictDeleteLoop_xactinp:
  "xactinp (snd (evictDeleteLoop e evict bkt x absd i objs s)) = xactinp s"
  by (induction objs arbitrary: i s)
     (auto simp: timeNow_def split: option.splits prod.splits)

lemma evictDeleteLoop_stats:
  "stats (snd (evictDeleteLoop e evict bkt x absd i objs s)) = stats s"
  by (induction objs arbitrary: i s)
     (auto simp: timeNow_def split: option.splits prod.splits)

lemma absDeadline_fields [simp]:
  "trace (snd (absDeadline e dl s)) = trace s"
  "xactinp (snd (absDeadline e dl s)) = xactinp s"
  "stats (snd (absDeadline e dl s)) = stats s"
  "prefetchQueue (snd (absDeadline e dl s)) = prefetchQueue s"
  by (simp_all add: absDeadline_def timeNow_def)

lemma newXact_effect:
  "xid (fst (if evict then newEvict e s else newDelete e s)) = nextid s"
  "trace (snd (if evict then newEvict e s else newDelete e s)) =
     trace s @ [EvXactAdd (nextid s) (if evict then ActEvict else ActDelete)]"
  "xactinp (snd (if evict then newEvict e s else newDelete e s)) =
     xactinp s @ [XactDeleteEvict (fst (if evict then newEvict e s else newDelete e s))]"
  "stats (snd (if evict then newEvict e s else newDelete e s)) = stats s"
  by (simp_all add: newDelete_def newEvict_def uniqueid_def newxactBase_def timeNow_def xadd_def
      emit_def xactBase.extend_def Let_def)

lemma doListEvictDelete_unfold:
  "doListEvictDelete e evict objs bkt dl dn s =
     (let n = (if evict then newEvict e s else newDelete e s);
          a = absDeadline e dl (snd n);
          l = evictDeleteLoop e evict bkt (xid (fst n)) (fst a) 0 objs (snd a)
      in (OpReturned (fst l), xdel (xid (fst n)) (sendDone dn (snd l))))"
  by (simp add: doListEvictDelete_def Let_def split: prod.splits)


lemma doListEvictDelete_deregistered:
  "xactinp (snd (doListEvictDelete e evict objs bkt dl dn s)) =
     filter (\<lambda>x. xid (xactOf x) \<noteq> nextid s) (xactinp s)"
proof -
  define n where "n = (if evict then newEvict e s else newDelete e s)"
  define a where "a = absDeadline e dl (snd n)"
  have xn: "xid (fst n) = nextid s" unfolding n_def by (rule newXact_effect)
  have xa: "xactinp (snd a) = xactinp s @ [XactDeleteEvict (fst n)]"
    unfolding a_def n_def by (simp only: absDeadline_fields newXact_effect)
  show ?thesis
    unfolding doListEvictDelete_unfold Let_def n_def [symmetric] a_def [symmetric]
    using xn xa
    by (simp add: xdel_def sendDone_def evictDeleteLoop_xactinp emit_def split: option.splits)
qed

lemma doListEvictDelete_stats:
  "stats (snd (doListEvictDelete e evict objs bkt dl dn s)) = stats s"
  unfolding doListEvictDelete_unfold Let_def
  by (cases dn)
     (simp_all add: xdel_def sendDone_def evictDeleteLoop_stats emit_def newXact_effect
        split del: if_split)

lemma steps_refl: "steps s [] s"
  by (simp add: steps_def)

lemma steps_trans: "steps s tr s1 \<Longrightarrow> steps s1 tr' s2 \<Longrightarrow> steps s (tr @ tr') s2"
  by (auto simp: steps_def)

lemma steps_emit: "(\<And>x. ev \<noteq> EvXactDel x) \<Longrightarrow> steps s [ev] (emit ev s)"
  by (simp add: steps_def emit_def)

lemma steps_statsAdd: "n \<noteq> ''numerr'' \<Longrightarrow> steps s [] (statsAdd n d s)"
  by (simp add: steps_def statsAdd_def)

lemma prefetchCold_steps:
  assumes "coldgetOk e"
  shows "\<exists>s' tr. prefetchCold e objname bkt cold vch s = Inr s' \<and> steps s tr s' \<and>
           filter isLookupOrSend tr = []"
proof (cases cold)
  case False
  then have "prefetchCold e objname bkt cold vch s = Inr s" by (simp add: prefetchCold_def)
  moreover have "steps s [] s" by (rule steps_refl)
  moreover have "filter isLookupOrSend [] = []" by simp
  ultimately show ?thesis by blast
next
  case True
  obtain props errstr code where c: "coldget e bkt objname True = (props, errstr, code)"
    by (cases "coldget e bkt objname True")
  show ?thesis
  proof (cases "errstr = []")
    case False
    then show ?thesis using True c
      by (auto simp: prefetchCold_def steps_def emit_def)
  next
    case e0: True
    have "props \<noteq> None"
    proof
      assume "props = None"
      with c e0 have "coldget e bkt objname True = (None, [], code)" by simp
      with assms show False unfolding coldgetOk_def
        by (metis (mono_tags, lifting) case_prod_conv)
    qed
    then obtain pr where pr: "props = Some pr" by blast
    show ?thesis using True c e0 pr
      by (auto simp: prefetchCold_def steps_def emit_def statsAdd_def Let_def)
  qed
qed

lemma prefetchMissing_steps:
  assumes "coldgetOk e"
  shows "\<exists>s' tr. prefetchMissing e objname bkt s = Inr s' \<and> steps s tr s' \<and>
           filter isLookupOrSend tr = [EvLookupLocally bkt objname]"
proof -
  define s1 where "s1 = emit (EvLookupLocally bkt objname) s"
  have st1: "steps s [EvLookupLocally bkt objname] s1"
    unfolding s1_def by (rule steps_emit) simp
  obtain cold sz version errstr where l:
    "lookupLocally e bkt objname = (cold, sz, version, errstr)"
    by (cases "lookupLocally e bkt objname")
  define early where "early \<longleftrightarrow> (errstr \<noteq> [] \<and> \<not> cold) \<or> (errstr \<noteq> [] \<and> cold \<and> islocal e bkt)"
  define vcheck where "vcheck \<longleftrightarrow> \<not> cold \<and> \<not> islocal e bkt \<and> ValidateWarmGet e \<and> version \<noteq> []
                     \<and> versioningConfigured e bkt"
  have unf: "prefetchMissing e objname bkt s =
     (if early then Inr (emit (EvLogError (LogErrstr errstr)) s1)
      else if vcheck then
        (case checkCloudVersion e bkt objname version of
           (vchanged, errstr2, _) \<Rightarrow>
             if errstr2 \<noteq> [] then Inr (emit (EvCheckCloudVersion bkt objname) s1)
             else prefetchCold e objname bkt vchanged vchanged
                    (emit (EvCheckCloudVersion bkt objname) s1))
      else prefetchCold e objname bkt cold False s1)"
    unfolding prefetchMissing_def Let_def l early_def vcheck_def s1_def by simp
  show ?thesis
  proof (cases early)
    case True
    have "steps s1 [EvLogError (LogErrstr errstr)] (emit (EvLogError (LogErrstr errstr)) s1)"
      by (rule steps_emit) simp
    from steps_trans [OF st1 this] True unf show ?thesis by auto
  next
    case ne: False
    show ?thesis
    proof (cases vcheck)
      case False
      from prefetchCold_steps [OF assms, of objname bkt cold False s1] obtain s' tr where
        "prefetchCold e objname bkt cold False s1 = Inr s'" "steps s1 tr s'"
        "filter isLookupOrSend tr = []" by blast
      with steps_trans [OF st1 this(2)] ne False unf show ?thesis by auto
    next
      case True
      obtain vchanged errstr2 code where cv:
        "checkCloudVersion e bkt objname version = (vchanged, errstr2, code)"
        by (cases "checkCloudVersion e bkt objname version")
      define s2 where "s2 = emit (EvCheckCloudVersion bkt objname) s1"
      have "steps s1 [EvCheckCloudVersion bkt objname] s2"
        unfolding s2_def by (rule steps_emit) simp
      from steps_trans [OF st1 this]
      have st2: "steps s [EvLookupLocally bkt objname, EvCheckCloudVersion bkt objname] s2"
        by simp
      show ?thesis
      proof (cases "errstr2 = []")
        case False
        with st2 ne True unf cv show ?thesis by (auto simp: s2_def)
      next
        case e2: True
        from prefetchCold_steps [OF assms, of objname bkt vchanged vchanged s2] obtain s' tr
          where "prefetchCold e objname bkt vchanged vchanged s2 = Inr s'" "steps s2 tr s'"
            "filter isLookupOrSend tr = []" by blast
        with steps_trans [OF st2 this(2)] ne True unf cv e2 show ?thesis
          by (auto simp: s2_def)
      qed
    qed
  qed
qed

lemma prefetchObjs_steps:
  assumes "coldgetOk e"
  shows "\<exists>s' tr. prefetchObjs e bkt os s = Inr s' \<and> steps s tr s' \<and>
           filter isLookupOrSend tr = map (EvLookupLocally bkt) os"
proof (induction os arbitrary: s)
  case Nil
  have "steps s [] s" by (rule steps_refl)
  then show ?case by (intro exI [of _ s] exI [of _ "[]"]) simp
next
  case (Cons objname rest)
  from prefetchMissing_steps [OF assms, of objname bkt s] obtain s1 tr1 where
    1: "prefetchMissing e objname bkt s = Inr s1" "steps s tr1 s1"
       "filter isLookupOrSend tr1 = [EvLookupLocally bkt objname]" by blast
  from Cons.IH [of s1] obtain s2 tr2 where
    2: "prefetchObjs e bkt rest s1 = Inr s2" "steps s1 tr2 s2"
       "filter isLookupOrSend tr2 = map (EvLookupLocally bkt) rest" by blast
  have "prefetchObjs e bkt (objname # rest) s = Inr s2" using 1(1) 2(1) by simp
  moreover have "steps s (tr1 @ tr2) s2" using 1(2) 2(2) by (rule steps_trans)
  moreover have "filter isLookupOrSend (tr1 @ tr2) = map (EvLookupLocally bkt) (objname # rest)"
    using 1(3) 2(3) by simp
  ultimately show ?case by blast
qed

lemma steps_sendDone: "steps s (case dn of None \<Rightarrow> [] | Some c \<Rightarrow> [EvSend c]) (sendDone dn s)"
  by (cases dn) (simp_all add: sendDone_def steps_def emit_def)

lemma batch_steps:
  assumes "coldgetOk e"
  shows "\<exists>s' tr. prefetchObjs e (bucket fwd) (objnames fwd) s = Inr s' \<and>
     steps s tr (sendDone (donec fwd) s') \<and> filter isLookupOrSend tr = batchEvents fwd"
proof -
  from prefetchObjs_steps [OF assms, of "bucket fwd" "objnames fwd" s] obtain s' tr where
    1: "prefetchObjs e (bucket fwd) (objnames fwd) s = Inr s'" "steps s tr s'"
       "filter isLookupOrSend tr = map (EvLookupLocally (bucket fwd)) (objnames fwd)" by blast
  have 2: "steps s (tr @ (case donec fwd of None \<Rightarrow> [] | Some c \<Rightarrow> [EvSend c]))
      (sendDone (donec fwd) s')"
    using 1(2) steps_sendDone by (rule steps_trans)
  have 3: "filter isLookupOrSend (tr @ (case donec fwd of None \<Rightarrow> [] | Some c \<Rightarrow> [EvSend c]))
      = batchEvents fwd"
    using 1(3) by (cases "donec fwd") (simp_all add: batchEvents_def)
  from 1(1) 2 3 show ?thesis by blast
qed

lemma drainQueue_drained:
  assumes "coldgetOk e"
  shows "\<exists>s' tr. drainQueue e q s = Inr s' \<and> drained e q s tr s'"
proof (induction q arbitrary: s)
  case Nil
  show ?case by (intro exI [of _ s] exI [of _ "[]"]) (simp add: drained_def)
next
  case (Cons fwd q)
  define s0 where "s0 = s\<lparr>prefetchQueue := q\<rparr>"
  show ?case
  proof (cases "deadline fwd")
    case None
    from batch_steps [OF assms, of fwd s0] obtain s2 tr1 where
      1: "prefetchObjs e (bucket fwd) (objnames fwd) s0 = Inr s2"
         "steps s0 tr1 (sendDone (donec fwd) s2)" "filter isLookupOrSend tr1 = batchEvents fwd"
      by blast
    from Cons.IH [of "sendDone (donec fwd) s2"] obtain s' tr2 where
      2: "drainQueue e q (sendDone (donec fwd) s2) = Inr s'"
         "drained e q (sendDone (donec fwd) s2) tr2 s'" by blast
    have r: "drainQueue e (fwd # q) s = Inr s'"
      using None 1(1) 2(1) by (simp add: s0_def)
    have "drained e (fwd # q) s (tr1 @ tr2) s'"
      using 1(2,3) 2(2) None unfolding drained_def steps_def s0_def by auto
    with r show ?thesis by blast
  next
    case (Some d)
    define s1 where "s1 = s0\<lparr>clock := Suc (clock s0)\<rparr>"
    have tn: "timeNow e s0 = (now e (clock s), s1)"
      by (simp add: timeNow_def s1_def s0_def)
    show ?thesis
    proof (cases "d < now e (clock s)")
      case True
      from Cons.IH [of s1] obtain s' tr where
        2: "drainQueue e q s1 = Inr s'" "drained e q s1 tr s'" by blast
      have r: "drainQueue e (fwd # q) s = Inr s'"
        using Some tn True 2(1) by (simp add: s0_def [symmetric])
      have "drained e (fwd # q) s tr s'"
        using 2(2) Some True unfolding drained_def s1_def s0_def by simp
      with r show ?thesis by blast
    next
      case False
      from batch_steps [OF assms, of fwd s1] obtain s2 tr1 where
        1: "prefetchObjs e (bucket fwd) (objnames fwd) s1 = Inr s2"
           "steps s1 tr1 (sendDone (donec fwd) s2)" "filter isLookupOrSend tr1 = batchEvents fwd"
        by blast
      from Cons.IH [of "sendDone (donec fwd) s2"] obtain s' tr2 where
        2: "drainQueue e q (sendDone (donec fwd) s2) = Inr s'"
           "drained e q (sendDone (donec fwd) s2) tr2 s'" by blast
      have r: "drainQueue e (fwd # q) s = Inr s'"
        using Some tn False 1(1) 2(1) by (simp add: s0_def [symmetric])
      have "drained e (fwd # q) s (tr1 @ tr2) s'"
        using 1(2,3) 2(2) Some False unfolding drained_def steps_def s1_def s0_def by auto
      with r show ?thesis by blast
    qed
  qed
qed

lemma doPrefetch_trace:
  assumes "coldgetOk e" and "findU ActPrefetch s = None"
  shows "\<exists>s' mid. doPrefetch e s = Inr s' \<and>
     trace s' = trace s @ EvXactAdd (nextid s) ActPrefetch # mid @ [EvXactDel (nextid s)] \<and>
     (\<forall>ev \<in> set mid. \<forall>x. ev \<noteq> EvXactDel x) \<and>
     filter isLookupOrSend mid =
       concat (map batchEvents (processed e (Suc (clock s)) (prefetchQueue s))) \<and>
     stats s' ''numerr'' = stats s ''numerr'' \<and>
     (\<forall>x \<in> set (xactinp s'). xid (xactOf x) \<noteq> nextid s)"
proof -
  define xpre where "xpre = \<lparr>xid = nextid s, kind = ActPrefetch, stime = now e (clock s),
      etime = None, targetrunner = Some (me e)\<rparr>"
  define s1 where "s1 = emit (EvXactAdd (nextid s) ActPrefetch)
      (s\<lparr>nextid := Suc (nextid s), clock := Suc (clock s),
         xactinp := xactinp s @ [XactPrefetch xpre]\<rparr>)"
  have rn: "renewPrefetch e (me e) s = Inr (Some xpre, s1)"
    unfolding xpre_def s1_def by (rule renewPrefetch_fresh [OF assms(2)])
  have s1f: "trace s1 = trace s @ [EvXactAdd (nextid s) ActPrefetch]"
    "clock s1 = Suc (clock s)" "prefetchQueue s1 = prefetchQueue s"
    "stats s1 = stats s" "xid xpre = nextid s"
    by (simp_all add: s1_def emit_def xpre_def)
  from drainQueue_drained [OF assms(1), of "prefetchQueue s1" s1] obtain s2 mid where
    d: "drainQueue e (prefetchQueue s1) s1 = Inr s2" "drained e (prefetchQueue s1) s1 mid s2"
    by blast
  define s' where "s' = xdel (xid xpre) (setEtime (xid xpre) (now e (clock s2))
      (s2\<lparr>clock := Suc (clock s2)\<rparr>))"
  have r: "doPrefetch e s = Inr s'"
    using rn d(1) by (simp add: doPrefetch_def timeNow_def s'_def)
  have t: "trace s' = trace s @ EvXactAdd (nextid s) ActPrefetch # mid @ [EvXactDel (nextid s)]"
    using d(2) s1f by (simp add: s'_def xdel_def setEtime_def drained_def)
  have m: "\<forall>ev \<in> set mid. \<forall>x. ev \<noteq> EvXactDel x"
    using d(2) by (simp add: drained_def)
  have f: "filter isLookupOrSend mid =
       concat (map batchEvents (processed e (Suc (clock s)) (prefetchQueue s)))"
    using d(2) s1f by (simp add: drained_def)
  have n: "stats s' ''numerr'' = stats s ''numerr''"
    using d(2) s1f by (simp add: s'_def xdel_def setEtime_def drained_def emit_def)
  have x: "\<forall>x \<in> set (xactinp s'). xid (xactOf x) \<noteq> nextid s"
    using s1f(5) by (simp add: s'_def xdel_def setEtime_def emit_def)
  from r t m f n x show ?thesis by blast
qed

lemma listOperation_Kept:
  assumes "ownedObjs e bkt (Objnames m) [] = Kept objs" and "objs \<noteq> []"
    and "makeDone (Wait m) s = (dn, s1)" and "op objs bkt (Deadline m) dn s1 = (r, s2)"
  shows "listOperation e (Some (bkt # rest)) m op s =
     awaitDone (Wait m) dn
       (case r of
          OpReturned (Some err) \<Rightarrow>
            statsAdd ''numerr'' 1 (emit (EvLogError (LogListOperation err)) s2)
        | _ \<Rightarrow> s2)"
  using assms by (simp add: listOperation_def split: opresult.splits option.splits)

lemma statsAdd_fields [simp]:
  "trace (statsAdd n d s) = trace s" "xactinp (statsAdd n d s) = xactinp s"
  "clock (statsAdd n d s) = clock s" "nextid (statsAdd n d s) = nextid s"
  by (simp_all add: statsAdd_def)



lemma doListDelete_eq:
  "doListDelete e = (\<lambda>objs bkt dl dn s. doListEvictDelete e False objs bkt dl dn s)"
  by (intro ext) (simp add: doListDelete_def)

lemma doListEvict_eq:
  "doListEvict e = (\<lambda>objs bkt dl dn s. doListEvictDelete e True objs bkt dl dn s)"
  by (intro ext) (simp add: doListEvict_def)

lemma listOp_evictDelete_eq:
  "(if evict then doListEvict e else doListDelete e) =
     (\<lambda>objs bkt dl dn s. doListEvictDelete e evict objs bkt dl dn s)"
  by (simp add: doListDelete_eq doListEvict_eq)


lemma exOwnedObj1: "ownedObjs exEnv ''local'' [''obj1''] [] = Kept [''obj1'']"
  by (simp add: exEnv_def exSelf_def exOther_def)



lemma exEnv_coldgetOk: "coldgetOk exEnv"
  by (simp add: coldgetOk_def exEnv_def)

lemma exQueued_fields:
  "findU ActPrefetch exQueued = None" "prefetchQueue exQueued = [exBatch]"
  "trace exQueued = []" "clock exQueued = 0" "nextid exQueued = 1" "nchan exQueued = 0"
  by (simp_all add: exQueued_def exState_def findU_def)



section \<open>A failure on one object of a batch\<close>

lemma evictDeleteLoop_first_failure:
  assumes "\<forall>j. \<not> aborted e x j"
    and "\<forall>p \<in> set pre. fildelete e bkt p evict = None"
    and "fildelete e bkt obj evict = Some err"
  shows "evictDeleteLoop e evict bkt x None i (pre @ obj # post) s =
     (Some err, s\<lparr>trace := trace s @ map (\<lambda>obj. EvFildelete bkt obj evict) (pre @ [obj])\<rparr>)"
  using assms(2)
proof (induction pre arbitrary: i s)
  case Nil
  show ?case using assms(1,3) by (simp add: emit_def)
next
  case (Cons p pre)
  from Cons.prems have p: "fildelete e bkt p evict = None"
    and r: "\<forall>p \<in> set pre. fildelete e bkt p evict = None" by simp_all
  show ?case
    using assms(1) p Cons.IH [OF r, of "Suc i" "emit (EvFildelete bkt p evict) s"]
    by (simp add: emit_def)
qed

lemma doListEvictDelete_first_failure:
  assumes "\<forall>j. \<not> aborted e (nextid s) j"
    and "\<forall>p \<in> set pre. fildelete e bkt p evict = None"
    and "fildelete e bkt obj evict = Some err"
  shows "fst (doListEvictDelete e evict (pre @ obj # post) bkt 0 dn s) = OpReturned (Some err)"
    and "trace (snd (doListEvictDelete e evict (pre @ obj # post) bkt 0 dn s)) =
       trace s @ EvXactAdd (nextid s) (if evict then ActEvict else ActDelete) #
         map (\<lambda>obj. EvFildelete bkt obj evict) (pre @ [obj]) @
         (case dn of None \<Rightarrow> [] | Some c \<Rightarrow> [EvSend c]) @ [EvXactDel (nextid s)]"
proof -
  define n where "n = (if evict then newEvict e s else newDelete e s)"
  have xn: "xid (fst n) = nextid s" unfolding n_def by (rule newXact_effect)
  have tn: "trace (snd n) = trace s @ [EvXactAdd (nextid s) (if evict then ActEvict else ActDelete)]"
    unfolding n_def by (rule newXact_effect)
  have a: "absDeadline e 0 (snd n) = (None, snd n)" by (simp add: absDeadline_def)
  have na: "\<forall>j. \<not> aborted e (xid (fst n)) j" using assms(1) xn by simp
  note l = evictDeleteLoop_first_failure [OF na assms(2,3), of 0 post "snd n"]
  have u: "doListEvictDelete e evict (pre @ obj # post) bkt 0 dn s =
      (OpReturned (Some err), xdel (xid (fst n)) (sendDone dn
         (snd n\<lparr>trace := trace (snd n) @
            map (\<lambda>obj. EvFildelete bkt obj evict) (pre @ [obj])\<rparr>)))"
    unfolding doListEvictDelete_unfold Let_def n_def [symmetric] a using l by simp
  show "fst (doListEvictDelete e evict (pre @ obj # post) bkt 0 dn s) = OpReturned (Some err)"
    unfolding u by simp
  show "trace (snd (doListEvictDelete e evict (pre @ obj # post) bkt 0 dn s)) =
       trace s @ EvXactAdd (nextid s) (if evict then ActEvict else ActDelete) #
         map (\<lambda>obj. EvFildelete bkt obj evict) (pre @ [obj]) @
         (case dn of None \<Rightarrow> [] | Some c \<Rightarrow> [EvSend c]) @ [EvXactDel (nextid s)]"
    unfolding u using xn tn
    by (cases dn) (simp_all add: xdel_def sendDone_def split del: if_split)
qed

lemma makeDone_fields [simp]:
  "stats (snd (makeDone w s)) = stats s" "nextid (snd (makeDone w s)) = nextid s"
  by (simp_all add: makeDone_def makeChan_def emit_def)

lemma awaitDone_fields [simp]:
  "stats (snd (awaitDone w dn s)) = stats s"
  by (simp add: awaitDone_def emit_def split: option.splits)

lemma awaitDone_trace: "ev \<in> set (trace s) \<Longrightarrow> ev \<in> set (trace (snd (awaitDone w dn s)))"
  by (simp add: awaitDone_def emit_def split: option.splits)

lemma listOperation_first_failure:
  assumes "ownedObjs e bkt (Objnames m) [] = Kept (pre @ obj # post)" and "Deadline m = 0"
    and "\<forall>j. \<not> aborted e (nextid s) j"
    and "\<forall>p \<in> set pre. fildelete e bkt p evict = None"
    and "fildelete e bkt obj evict = Some err"
  shows "stats (snd (listOperation e (Some (bkt # rest)) m
            (if evict then doListEvict e else doListDelete e) s)) ''numerr'' =
         stats s ''numerr'' + 1"
    and "EvLogError (LogListOperation err) \<in> set (trace (snd (listOperation e (Some (bkt # rest)) m
            (if evict then doListEvict e else doListDelete e) s)))"
proof -
  obtain dn s1 where md: "makeDone (Wait m) s = (dn, s1)" by (cases "makeDone (Wait m) s")
  have s1f: "stats s1 = stats s" "nextid s1 = nextid s"
    using makeDone_fields [of "Wait m" s] md by simp_all
  obtain r s2 where op:
    "doListEvictDelete e evict (pre @ obj # post) bkt (Deadline m) dn s1 = (r, s2)"
    by (cases "doListEvictDelete e evict (pre @ obj # post) bkt (Deadline m) dn s1")
  have na: "\<forall>j. \<not> aborted e (nextid s1) j" using assms(3) s1f by simp
  have r: "r = OpReturned (Some err)"
    using doListEvictDelete_first_failure(1) [OF na assms(4,5), of post dn] op assms(2) by simp
  have st2: "stats s2 = stats s"
    using doListEvictDelete_stats [of e evict "pre @ obj # post" bkt "Deadline m" dn s1] op s1f
    by simp
  define s3 where "s3 = statsAdd ''numerr'' 1 (emit (EvLogError (LogListOperation err)) s2)"
  have eq: "listOperation e (Some (bkt # rest)) m
            (if evict then doListEvict e else doListDelete e) s = awaitDone (Wait m) dn s3"
    unfolding listOp_evictDelete_eq
    using listOperation_Kept [of e bkt m "pre @ obj # post" s dn s1
        "\<lambda>objs bkt dl dn s. doListEvictDelete e evict objs bkt dl dn s" r s2 rest]
      assms(1) md op r
    by (simp add: s3_def)
  have n3: "stats s3 ''numerr'' = stats s ''numerr'' + 1"
    by (simp add: s3_def statsAdd_def st2)
  have l3: "EvLogError (LogListOperation err) \<in> set (trace s3)"
    by (simp add: s3_def)
  show "stats (snd (listOperation e (Some (bkt # rest)) m
            (if evict then doListEvict e else doListDelete e) s)) ''numerr'' =
         stats s ''numerr'' + 1"
    unfolding eq using n3 by simp
  show "EvLogError (LogListOperation err) \<in> set (trace (snd (listOperation e (Some (bkt # rest)) m
            (if evict then doListEvict e else doListDelete e) s)))"
    unfolding eq using l3 by (rule awaitDone_trace)
qed

lemma isLookup_batchEvents:
  "filter isLookup (batchEvents fwd) = map (EvLookupLocally (bucket fwd)) (objnames fwd)"
  by (cases "donec fwd") (simp_all add: batchEvents_def filter_map o_def)

lemma isLookup_isLookupOrSend: "isLookup ev \<Longrightarrow> isLookupOrSend ev"
  by (cases ev) simp_all

lemma filter_isLookup_via: "filter isLookup (filter isLookupOrSend tr) = filter isLookup tr"
  by (induction tr) (auto dest: isLookup_isLookupOrSend)

lemma filter_isLookup_batches:
  "filter isLookup (concat (map batchEvents q)) =
     concat (map (\<lambda>fwd. map (EvLookupLocally (bucket fwd)) (objnames fwd)) q)"
  by (induction q) (simp_all add: isLookup_batchEvents)

lemma doPrefetch_attempts_all:
  assumes "coldgetOk e" and "findU ActPrefetch s = None"
  shows "\<exists>s'. doPrefetch e s = Inr s' \<and>
     filter isLookup (trace s') =
       filter isLookup (trace s) @
       concat (map (\<lambda>fwd. map (EvLookupLocally (bucket fwd)) (objnames fwd))
                 (processed e (Suc (clock s)) (prefetchQueue s))) \<and>
     stats s' ''numerr'' = stats s ''numerr''"
proof -
  from doPrefetch_trace [OF assms] obtain s' mid where
    p: "doPrefetch e s = Inr s'"
       "trace s' = trace s @ EvXactAdd (nextid s) ActPrefetch # mid @ [EvXactDel (nextid s)]"
       "filter isLookupOrSend mid =
          concat (map batchEvents (processed e (Suc (clock s)) (prefetchQueue s)))"
       "stats s' ''numerr'' = stats s ''numerr''"
    by blast
  have "filter isLookup mid = filter isLookup (filter isLookupOrSend mid)"
    by (simp only: filter_isLookup_via)
  also have "\<dots> = concat (map (\<lambda>fwd. map (EvLookupLocally (bucket fwd)) (objnames fwd))
                 (processed e (Suc (clock s)) (prefetchQueue s)))"
    unfolding p(3) by (rule filter_isLookup_batches)
  finally have m: "filter isLookup mid =
      concat (map (\<lambda>fwd. map (EvLookupLocally (bucket fwd)) (objnames fwd))
                 (processed e (Suc (clock s)) (prefetchQueue s)))" .
  have "filter isLookup (trace s') = filter isLookup (trace s) @ filter isLookup mid"
    unfolding p(2) by simp
  with m p(1,4) show ?thesis by simp
qed

lemma prefetchMissing_lookup_failure:
  assumes "lookupLocally e bkt obj = (cold, sz, ver, lerr)" and "lerr \<noteq> []"
    and "\<not> cold \<or> islocal e bkt"
  shows "prefetchMissing e obj bkt s =
     Inr (emit (EvLogError (LogErrstr lerr)) (emit (EvLookupLocally bkt obj) s))"
  using assms by (auto simp: prefetchMissing_def Let_def)

lemma prefetchMissing_version_failure:
  assumes "lookupLocally e bkt obj = (False, sz, ver, [])" and "\<not> islocal e bkt"
    and "ValidateWarmGet e" and "ver \<noteq> []" and "versioningConfigured e bkt"
    and "checkCloudVersion e bkt obj ver = (vch, verr, vcode)" and "verr \<noteq> []"
  shows "prefetchMissing e obj bkt s =
     Inr (emit (EvCheckCloudVersion bkt obj) (emit (EvLookupLocally bkt obj) s))"
  using assms by (simp add: prefetchMissing_def Let_def)

lemma prefetchMissing_coldget_failure:
  assumes "lookupLocally e bkt obj = (True, sz, ver, lerr)" and "lerr = [] \<or> \<not> islocal e bkt"
    and "coldget e bkt obj True = (props, cerr, code)" and "cerr \<noteq> []"
  shows "prefetchMissing e obj bkt s =
     Inr (if cerr \<noteq> ''skip''
          then emit (EvLogError (LogErrstr cerr))
                 (emit (EvColdget bkt obj) (emit (EvLookupLocally bkt obj) s))
          else emit (EvColdget bkt obj) (emit (EvLookupLocally bkt obj) s))"
  using assms by (auto simp: prefetchMissing_def prefetchCold_def Let_def)

lemma prefetchMissing_changed_coldget_failure:
  assumes "lookupLocally e bkt obj = (False, sz, ver, [])" and "\<not> islocal e bkt"
    and "ValidateWarmGet e" and "ver \<noteq> []" and "versioningConfigured e bkt"
    and "checkCloudVersion e bkt obj ver = (True, [], vcode)"
    and "coldget e bkt obj True = (props, cerr, code)" and "cerr \<noteq> []"
  shows "prefetchMissing e obj bkt s =
     Inr (if cerr \<noteq> ''skip''
          then emit (EvLogError (LogErrstr cerr))
                 (emit (EvColdget bkt obj)
                    (emit (EvCheckCloudVersion bkt obj) (emit (EvLookupLocally bkt obj) s)))
          else emit (EvColdget bkt obj)
                 (emit (EvCheckCloudVersion bkt obj) (emit (EvLookupLocally bkt obj) s)))"
  using assms by (simp add: prefetchMissing_def prefetchCold_def Let_def)

text \<open>
  Claim C2, as amended. In a delete or evict batch with no deadline and no abort, the
  first object whose deletion fails ends the loop: the objects after it are not attempted,
  the error is returned, the signal (if any) is sent and the xaction is removed from the
  registry; the goroutine of listOperation logs the error and adds one to numerr. In
  prefetch every object of every batch that is not dropped for its deadline is looked up,
  whatever happened to the objects before it, and numerr is not changed. What prefetch
  logs of a failure on an object, in each of the ways prefetchMissing can fail:
  a lookup error on an object that needs no cold get, or in a local bucket, is logged and
  ends the object; a failed check of the cloud version ends the object and is not logged;
  a failed cold get, wherever it is reached (after a lookup that asks for it, also one
  that returned an error in a cloud bucket, which is not logged, or after a changed cloud
  version), ends the object and is logged unless its error string is "skip".
\<close>

theorem per_object_failure_handling:
  "((\<forall>j. \<not> aborted e (nextid s) j) \<longrightarrow>
    (\<forall>p \<in> set pre. fildelete e bkt p evict = None) \<longrightarrow>
    fildelete e bkt obj evict = Some err \<longrightarrow>
      fst (doListEvictDelete e evict (pre @ obj # post) bkt 0 dn s) = OpReturned (Some err) \<and>
      trace (snd (doListEvictDelete e evict (pre @ obj # post) bkt 0 dn s)) =
        trace s @ EvXactAdd (nextid s) (if evict then ActEvict else ActDelete) #
          map (\<lambda>obj. EvFildelete bkt obj evict) (pre @ [obj]) @
          (case dn of None \<Rightarrow> [] | Some c \<Rightarrow> [EvSend c]) @ [EvXactDel (nextid s)] \<and>
      (ownedObjs e bkt (Objnames m) [] = Kept (pre @ obj # post) \<longrightarrow> Deadline m = 0 \<longrightarrow>
         stats (snd (listOperation e (Some (bkt # rest)) m
            (if evict then doListEvict e else doListDelete e) s)) ''numerr'' =
           stats s ''numerr'' + 1 \<and>
         EvLogError (LogListOperation err) \<in>
           set (trace (snd (listOperation e (Some (bkt # rest)) m
             (if evict then doListEvict e else doListDelete e) s))))) \<and>
   (coldgetOk e \<longrightarrow> findU ActPrefetch s = None \<longrightarrow>
      (\<exists>s'. doPrefetch e s = Inr s' \<and>
         filter isLookup (trace s') =
           filter isLookup (trace s) @
           concat (map (\<lambda>fwd. map (EvLookupLocally (bucket fwd)) (objnames fwd))
                     (processed e (Suc (clock s)) (prefetchQueue s))) \<and>
         stats s' ''numerr'' = stats s ''numerr'')) \<and>
   (lookupLocally e bkt obj = (cold, sz, ver, lerr) \<longrightarrow> lerr \<noteq> [] \<longrightarrow>
    \<not> cold \<or> islocal e bkt \<longrightarrow>
      prefetchMissing e obj bkt s =
        Inr (emit (EvLogError (LogErrstr lerr)) (emit (EvLookupLocally bkt obj) s))) \<and>
   (lookupLocally e bkt obj = (False, sz, ver, []) \<longrightarrow> \<not> islocal e bkt \<longrightarrow>
    ValidateWarmGet e \<longrightarrow> ver \<noteq> [] \<longrightarrow> versioningConfigured e bkt \<longrightarrow>
    checkCloudVersion e bkt obj ver = (vch, verr, vcode) \<longrightarrow> verr \<noteq> [] \<longrightarrow>
      prefetchMissing e obj bkt s =
        Inr (emit (EvCheckCloudVersion bkt obj) (emit (EvLookupLocally bkt obj) s))) \<and>
   (lookupLocally e bkt obj = (True, sz, ver, lerr) \<longrightarrow> lerr = [] \<or> \<not> islocal e bkt \<longrightarrow>
    coldget e bkt obj True = (props, cerr, code) \<longrightarrow> cerr \<noteq> [] \<longrightarrow>
      prefetchMissing e obj bkt s =
        Inr (if cerr \<noteq> ''skip''
             then emit (EvLogError (LogErrstr cerr))
                    (emit (EvColdget bkt obj) (emit (EvLookupLocally bkt obj) s))
             else emit (EvColdget bkt obj) (emit (EvLookupLocally bkt obj) s))) \<and>
   (lookupLocally e bkt obj = (False, sz, ver, []) \<longrightarrow> \<not> islocal e bkt \<longrightarrow>
    ValidateWarmGet e \<longrightarrow> ver \<noteq> [] \<longrightarrow> versioningConfigured e bkt \<longrightarrow>
    checkCloudVersion e bkt obj ver = (True, [], vcode) \<longrightarrow>
    coldget e bkt obj True = (props, cerr, code) \<longrightarrow> cerr \<noteq> [] \<longrightarrow>
      prefetchMissing e obj bkt s =
        Inr (if cerr \<noteq> ''skip''
             then emit (EvLogError (LogErrstr cerr))
                    (emit (EvColdget bkt obj)
                       (emit (EvCheckCloudVersion bkt obj) (emit (EvLookupLocally bkt obj) s)))
             else emit (EvColdget bkt obj)
                    (emit (EvCheckCloudVersion bkt obj) (emit (EvLookupLocally bkt obj) s))))"
proof (intro conjI impI)
  assume a: "\<forall>j. \<not> aborted e (nextid s) j" "\<forall>p \<in> set pre. fildelete e bkt p evict = None"
    "fildelete e bkt obj evict = Some err"
  show "fst (doListEvictDelete e evict (pre @ obj # post) bkt 0 dn s) = OpReturned (Some err)"
    by (rule doListEvictDelete_first_failure [OF a])
  show "trace (snd (doListEvictDelete e evict (pre @ obj # post) bkt 0 dn s)) =
        trace s @ EvXactAdd (nextid s) (if evict then ActEvict else ActDelete) #
          map (\<lambda>obj. EvFildelete bkt obj evict) (pre @ [obj]) @
          (case dn of None \<Rightarrow> [] | Some c \<Rightarrow> [EvSend c]) @ [EvXactDel (nextid s)]"
    by (rule doListEvictDelete_first_failure [OF a])
  assume k: "ownedObjs e bkt (Objnames m) [] = Kept (pre @ obj # post)" "Deadline m = 0"
  show "stats (snd (listOperation e (Some (bkt # rest)) m
            (if evict then doListEvict e else doListDelete e) s)) ''numerr'' =
           stats s ''numerr'' + 1"
    by (rule listOperation_first_failure [OF k a])
  show "EvLogError (LogListOperation err) \<in>
           set (trace (snd (listOperation e (Some (bkt # rest)) m
             (if evict then doListEvict e else doListDelete e) s)))"
    by (rule listOperation_first_failure [OF k a])
next
  assume "coldgetOk e" "findU ActPrefetch s = None"
  then show "\<exists>s'. doPrefetch e s = Inr s' \<and>
         filter isLookup (trace s') =
           filter isLookup (trace s) @
           concat (map (\<lambda>fwd. map (EvLookupLocally (bucket fwd)) (objnames fwd))
                     (processed e (Suc (clock s)) (prefetchQueue s))) \<and>
         stats s' ''numerr'' = stats s ''numerr''"
    by (rule doPrefetch_attempts_all)
next
  assume "lookupLocally e bkt obj = (cold, sz, ver, lerr)" "lerr \<noteq> []"
    "\<not> cold \<or> islocal e bkt"
  then show "prefetchMissing e obj bkt s =
        Inr (emit (EvLogError (LogErrstr lerr)) (emit (EvLookupLocally bkt obj) s))"
    by (rule prefetchMissing_lookup_failure)
next
  assume "lookupLocally e bkt obj = (False, sz, ver, [])" "\<not> islocal e bkt"
    "ValidateWarmGet e" "ver \<noteq> []" "versioningConfigured e bkt"
    "checkCloudVersion e bkt obj ver = (vch, verr, vcode)" "verr \<noteq> []"
  then show "prefetchMissing e obj bkt s =
        Inr (emit (EvCheckCloudVersion bkt obj) (emit (EvLookupLocally bkt obj) s))"
    by (rule prefetchMissing_version_failure)
next
  assume "lookupLocally e bkt obj = (True, sz, ver, lerr)" "lerr = [] \<or> \<not> islocal e bkt"
    "coldget e bkt obj True = (props, cerr, code)" "cerr \<noteq> []"
  then show "prefetchMissing e obj bkt s =
        Inr (if cerr \<noteq> ''skip''
             then emit (EvLogError (LogErrstr cerr))
                    (emit (EvColdget bkt obj) (emit (EvLookupLocally bkt obj) s))
             else emit (EvColdget bkt obj) (emit (EvLookupLocally bkt obj) s))"
    by (rule prefetchMissing_coldget_failure)
next
  assume "lookupLocally e bkt obj = (False, sz, ver, [])" "\<not> islocal e bkt"
    "ValidateWarmGet e" "ver \<noteq> []" "versioningConfigured e bkt"
    "checkCloudVersion e bkt obj ver = (True, [], vcode)"
    "coldget e bkt obj True = (props, cerr, code)" "cerr \<noteq> []"
  then show "prefetchMissing e obj bkt s =
        Inr (if cerr \<noteq> ''skip''
             then emit (EvLogError (LogErrstr cerr))
                    (emit (EvColdget bkt obj)
                       (emit (EvCheckCloudVersion bkt obj) (emit (EvLookupLocally bkt obj) s)))
             else emit (EvColdget bkt obj)
                    (emit (EvCheckCloudVersion bkt obj) (emit (EvLookupLocally bkt obj) s)))"
    by (rule prefetchMissing_changed_coldget_failure)
qed

lemma exDeleteBad:
  "doListEvictDelete exEnv False [''a'', ''bad'', ''c''] ''b'' 0 None exState =
     (OpReturned (Some (ErrStore ''bad'')),
      exState\<lparr>nextid := 2, clock := 1,
        trace := [EvXactAdd 1 ''delete'', EvFildelete ''b'' ''a'' False,
                  EvFildelete ''b'' ''bad'' False, EvXactDel 1]\<rparr>)"
  by (simp add: doListEvictDelete_def registry_eval exEnv_def exState_def)

lemma exPrefetchFailures:
  "prefetchMissing exFailEnv ''bad'' ''cloud'' exState =
     Inr (exState\<lparr>trace := [EvLookupLocally ''cloud'' ''bad'', EvColdget ''cloud'' ''bad'',
                              EvLogError (LogErrstr ''cloud failure'')]\<rparr>)"
  "prefetchMissing exFailEnv ''busy'' ''cloud'' exState =
     Inr (exState\<lparr>trace := [EvLookupLocally ''cloud'' ''busy'', EvColdget ''cloud'' ''busy'']\<rparr>)"
  by (simp_all add: prefetchMissing_def prefetchCold_def Let_def exFailEnv_def exEnv_def
        emit_def exState_def)

text \<open>
  Claim C2 as stated fails for delete: with the deletion of "bad" failing, the object "c"
  after it is never attempted. It fails for prefetch too: the failing cold get of "bad" is
  logged and nothing is counted, the counters being those of the state before, and the
  cold get of "busy", which returns "skip", is neither logged nor counted.
\<close>

theorem per_object_failure_counterexample:
  "fildelete exEnv ''b'' ''bad'' False = Some (ErrStore ''bad'') \<and>
   fst (doListEvictDelete exEnv False [''a'', ''bad'', ''c''] ''b'' 0 None exState) =
     OpReturned (Some (ErrStore ''bad'')) \<and>
   trace (snd (doListEvictDelete exEnv False [''a'', ''bad'', ''c''] ''b'' 0 None exState)) =
     [EvXactAdd 1 ''delete'', EvFildelete ''b'' ''a'' False, EvFildelete ''b'' ''bad'' False,
      EvXactDel 1] \<and>
   EvFildelete ''b'' ''c'' False \<notin>
     set (trace (snd (doListEvictDelete exEnv False [''a'', ''bad'', ''c''] ''b'' 0 None exState))) \<and>
   coldget exFailEnv ''cloud'' ''bad'' True = (None, ''cloud failure'', 500) \<and>
   prefetchMissing exFailEnv ''bad'' ''cloud'' exState =
     Inr (exState\<lparr>trace := [EvLookupLocally ''cloud'' ''bad'', EvColdget ''cloud'' ''bad'',
                              EvLogError (LogErrstr ''cloud failure'')]\<rparr>) \<and>
   coldget exFailEnv ''cloud'' ''busy'' True = (None, ''skip'', 0) \<and>
   prefetchMissing exFailEnv ''busy'' ''cloud'' exState =
     Inr (exState\<lparr>trace := [EvLookupLocally ''cloud'' ''busy'', EvColdget ''cloud'' ''busy'']\<rparr>)"
proof -
  have f: "fildelete exEnv ''b'' ''bad'' False = Some (ErrStore ''bad'')"
    by (simp add: exEnv_def)
  have d: "fst (doListEvictDelete exEnv False [''a'', ''bad'', ''c''] ''b'' 0 None exState) =
       OpReturned (Some (ErrStore ''bad''))"
    "trace (snd (doListEvictDelete exEnv False [''a'', ''bad'', ''c''] ''b'' 0 None exState)) =
       [EvXactAdd 1 ''delete'', EvFildelete ''b'' ''a'' False, EvFildelete ''b'' ''bad'' False,
        EvXactDel 1]"
    "EvFildelete ''b'' ''c'' False \<notin>
       set (trace (snd (doListEvictDelete exEnv False [''a'', ''bad'', ''c''] ''b'' 0 None
         exState)))"
    unfolding exDeleteBad by (simp_all add: exState_def)
  have c: "coldget exFailEnv ''cloud'' ''bad'' True = (None, ''cloud failure'', 500)"
    "coldget exFailEnv ''cloud'' ''busy'' True = (None, ''skip'', 0)"
    by (simp_all add: exFailEnv_def exEnv_def)
  from f d c(1) exPrefetchFailures(1) c(2) exPrefetchFailures(2) show ?thesis
    by (intro conjI)
qed

lemma exOwnedAbc: "ownedObjs exEnv ''b'' [''a'', ''bad'', ''c''] [] = Kept [''a'', ''bad'', ''c'']"
  by (simp add: exEnv_def exSelf_def exOther_def)

lemma exEnv_facts:
  "\<forall>j. \<not> aborted exEnv x j"
  "\<forall>p \<in> set [''a'']. fildelete exEnv ''b'' p False = None"
  "fildelete exEnv ''b'' ''bad'' False = Some (ErrStore ''bad'')"
  "lookupLocally exEnv ''b'' ''bad'' = (True, 0, [], [])"
  "coldget exEnv ''b'' ''bad'' True = (None, ''cloud failure'', 500)"
  by (simp_all add: exEnv_def)

lemma exBatch_lookups:
  "concat (map (\<lambda>fwd. map (EvLookupLocally (bucket fwd)) (objnames fwd))
      (processed exEnv k [exBatch])) =
     [EvLookupLocally ''cloud'' ''a'', EvLookupLocally ''cloud'' ''bad'',
      EvLookupLocally ''cloud'' ''c'']"
  by (simp add: exBatch_def)

lemma exFailEnv_facts:
  "\<not> islocal exFailEnv ''cloud''" "ValidateWarmGet exFailEnv"
  "versioningConfigured exFailEnv ''cloud''"
  "lookupLocally exFailEnv ''cloud'' ''lost'' = (False, 0, [], ''lookup failure'')"
  "lookupLocally exFailEnv ''cloud'' ''warm'' = (False, 10, ''v1'', [])"
  "lookupLocally exFailEnv ''cloud'' ''stale'' = (False, 10, ''v2'', [])"
  "lookupLocally exFailEnv ''cloud'' ''torn'' = (True, 0, [], ''lookup failure'')"
  "lookupLocally exFailEnv ''cloud'' ''bad'' = (True, 0, [], [])"
  "lookupLocally exFailEnv ''cloud'' ''busy'' = (True, 0, [], [])"
  "checkCloudVersion exFailEnv ''cloud'' ''warm'' ''v1'' = (False, ''version check failure'', 500)"
  "checkCloudVersion exFailEnv ''cloud'' ''stale'' ''v2'' = (True, [], 0)"
  "coldget exFailEnv ''cloud'' ''bad'' True = (None, ''cloud failure'', 500)"
  "coldget exFailEnv ''cloud'' ''torn'' True = (None, ''cloud failure'', 500)"
  "coldget exFailEnv ''cloud'' ''stale'' True = (None, ''cloud failure'', 500)"
  "coldget exFailEnv ''cloud'' ''busy'' True = (None, ''skip'', 0)"
  by (simp_all add: exFailEnv_def exEnv_def)

theorem per_object_failure_handling_witness:
  "(\<forall>j. \<not> aborted exEnv (nextid exQueued) j) \<and>
   fildelete exEnv ''b'' ''a'' False = None \<and>
   fildelete exEnv ''b'' ''bad'' False = Some (ErrStore ''bad'') \<and>
   coldgetOk exEnv \<and> findU ActPrefetch exQueued = None \<and>
   fst (doListEvictDelete exEnv False [''a'', ''bad'', ''c''] ''b'' 0 None exQueued) =
     OpReturned (Some (ErrStore ''bad'')) \<and>
   trace (snd (doListEvictDelete exEnv False [''a'', ''bad'', ''c''] ''b'' 0 None exQueued)) =
     [EvXactAdd 1 ''delete'', EvFildelete ''b'' ''a'' False, EvFildelete ''b'' ''bad'' False,
      EvXactDel 1] \<and>
   stats (snd (listOperation exEnv (Some [''b'']) (exListMsg [''a'', ''bad'', ''c''] False)
      (doListDelete exEnv) exQueued)) ''numerr'' = 1 \<and>
   (\<exists>s'. doPrefetch exEnv exQueued = Inr s' \<and>
      filter isLookup (trace s') =
        [EvLookupLocally ''cloud'' ''a'', EvLookupLocally ''cloud'' ''bad'',
         EvLookupLocally ''cloud'' ''c''] \<and>
      stats s' ''numerr'' = 0) \<and>
   prefetchMissing exEnv ''bad'' ''b'' exQueued =
     Inr (emit (EvLogError (LogErrstr ''cloud failure''))
            (emit (EvColdget ''b'' ''bad'') (emit (EvLookupLocally ''b'' ''bad'') exQueued))) \<and>
   prefetchMissing exFailEnv ''lost'' ''cloud'' exState =
     Inr (emit (EvLogError (LogErrstr ''lookup failure''))
            (emit (EvLookupLocally ''cloud'' ''lost'') exState)) \<and>
   prefetchMissing exFailEnv ''warm'' ''cloud'' exState =
     Inr (emit (EvCheckCloudVersion ''cloud'' ''warm'')
            (emit (EvLookupLocally ''cloud'' ''warm'') exState)) \<and>
   prefetchMissing exFailEnv ''bad'' ''cloud'' exState =
     Inr (emit (EvLogError (LogErrstr ''cloud failure''))
            (emit (EvColdget ''cloud'' ''bad'') (emit (EvLookupLocally ''cloud'' ''bad'') exState))) \<and>
   prefetchMissing exFailEnv ''busy'' ''cloud'' exState =
     Inr (emit (EvColdget ''cloud'' ''busy'') (emit (EvLookupLocally ''cloud'' ''busy'') exState)) \<and>
   prefetchMissing exFailEnv ''torn'' ''cloud'' exState =
     Inr (emit (EvLogError (LogErrstr ''cloud failure''))
            (emit (EvColdget ''cloud'' ''torn'')
               (emit (EvLookupLocally ''cloud'' ''torn'') exState))) \<and>
   prefetchMissing exFailEnv ''stale'' ''cloud'' exState =
     Inr (emit (EvLogError (LogErrstr ''cloud failure''))
            (emit (EvColdget ''cloud'' ''stale'')
               (emit (EvCheckCloudVersion ''cloud'' ''stale'')
                  (emit (EvLookupLocally ''cloud'' ''stale'') exState))))"
proof -
  define msg where "msg = exListMsg [''a'', ''bad'', ''c''] False"
  have on: "Objnames msg = [''a'', ''bad'', ''c'']" "Deadline msg = 0"
    by (simp_all add: msg_def exListMsg_def)
  have k: "ownedObjs exEnv ''b'' (Objnames msg) [] = Kept ([''a''] @ ''bad'' # [''c''])"
    unfolding on using exOwnedAbc by simp
  have st: "stats exQueued ''numerr'' = 0" by (simp add: exQueued_def exState_def)
  note T = per_object_failure_handling [where e = exEnv and s = exQueued and pre = "[''a'']"
      and bkt = "''b''" and evict = False and obj = "''bad''" and err = "ErrStore ''bad''"
      and post = "[''c'']" and dn = None and m = msg and rest = "[]" and sz = 0 and ver = "[]"
      and props = None and cerr = "''cloud failure''" and code = 500 and lerr = "[]"]
  note A = T [THEN conjunct1, THEN mp, OF exEnv_facts(1), THEN mp, OF exEnv_facts(2),
      THEN mp, OF exEnv_facts(3)]
  have a1: "fst (doListEvictDelete exEnv False [''a'', ''bad'', ''c''] ''b'' 0 None exQueued) =
     OpReturned (Some (ErrStore ''bad''))"
    using A [THEN conjunct1] by simp
  have a2: "trace (snd (doListEvictDelete exEnv False [''a'', ''bad'', ''c''] ''b'' 0 None
      exQueued)) =
     [EvXactAdd 1 ''delete'', EvFildelete ''b'' ''a'' False, EvFildelete ''b'' ''bad'' False,
      EvXactDel 1]"
    using A [THEN conjunct2, THEN conjunct1] by (simp add: exQueued_fields ActDelete_def)
  have a3: "stats (snd (listOperation exEnv (Some [''b'']) msg (doListDelete exEnv) exQueued))
      ''numerr'' = 1"
    using A [THEN conjunct2, THEN conjunct2, THEN mp, OF k, THEN mp, OF on(2),
        THEN conjunct1] st
    by simp
  from T [THEN conjunct2, THEN conjunct1, THEN mp, OF exEnv_coldgetOk, THEN mp,
      OF exQueued_fields(1)]
  obtain s' where p: "doPrefetch exEnv exQueued = Inr s'"
    "filter isLookup (trace s') = filter isLookup (trace exQueued) @
       concat (map (\<lambda>fwd. map (EvLookupLocally (bucket fwd)) (objnames fwd))
         (processed exEnv (Suc (clock exQueued)) (prefetchQueue exQueued)))"
    "stats s' ''numerr'' = stats exQueued ''numerr''" by blast
  have p2: "filter isLookup (trace s') =
        [EvLookupLocally ''cloud'' ''a'', EvLookupLocally ''cloud'' ''bad'',
         EvLookupLocally ''cloud'' ''c'']"
    using p(2) unfolding exQueued_fields exBatch_lookups by simp
  have b: "\<exists>s'. doPrefetch exEnv exQueued = Inr s' \<and>
      filter isLookup (trace s') =
        [EvLookupLocally ''cloud'' ''a'', EvLookupLocally ''cloud'' ''bad'',
         EvLookupLocally ''cloud'' ''c''] \<and>
      stats s' ''numerr'' = 0"
    using p(1) p2 p(3) st by simp
  have c: "prefetchMissing exEnv ''bad'' ''b'' exQueued =
     Inr (emit (EvLogError (LogErrstr ''cloud failure''))
            (emit (EvColdget ''b'' ''bad'') (emit (EvLookupLocally ''b'' ''bad'') exQueued)))"
    using T [THEN conjunct2, THEN conjunct2, THEN conjunct2, THEN conjunct2, THEN conjunct1,
        THEN mp, OF exEnv_facts(4)] exEnv_facts(5)
    by simp
  have d1: "prefetchMissing exFailEnv ''lost'' ''cloud'' exState =
     Inr (emit (EvLogError (LogErrstr ''lookup failure''))
            (emit (EvLookupLocally ''cloud'' ''lost'') exState))"
    using per_object_failure_handling [where e = exFailEnv and s = exState
        and bkt = "''cloud''" and obj = "''lost''" and cold = False and sz = 0 and ver = "[]"
        and lerr = "''lookup failure''",
        THEN conjunct2, THEN conjunct2, THEN conjunct1] exFailEnv_facts(4)
    by simp
  have d2: "prefetchMissing exFailEnv ''warm'' ''cloud'' exState =
     Inr (emit (EvCheckCloudVersion ''cloud'' ''warm'')
            (emit (EvLookupLocally ''cloud'' ''warm'') exState))"
    using per_object_failure_handling [where e = exFailEnv and s = exState
        and bkt = "''cloud''" and obj = "''warm''" and sz = 10 and ver = "''v1''" and vch = False
        and verr = "''version check failure''" and vcode = 500,
        THEN conjunct2, THEN conjunct2, THEN conjunct2, THEN conjunct1]
      exFailEnv_facts(1,2,3,5,10)
    by simp
  have d3: "prefetchMissing exFailEnv ''bad'' ''cloud'' exState =
     Inr (emit (EvLogError (LogErrstr ''cloud failure''))
            (emit (EvColdget ''cloud'' ''bad'') (emit (EvLookupLocally ''cloud'' ''bad'') exState)))"
    using per_object_failure_handling [where e = exFailEnv and s = exState
        and bkt = "''cloud''" and obj = "''bad''" and sz = 0 and ver = "[]" and lerr = "[]" and props = None
        and cerr = "''cloud failure''" and code = 500,
        THEN conjunct2, THEN conjunct2, THEN conjunct2, THEN conjunct2, THEN conjunct1] exFailEnv_facts(8,12)
    by simp
  have d4: "prefetchMissing exFailEnv ''busy'' ''cloud'' exState =
     Inr (emit (EvColdget ''cloud'' ''busy'') (emit (EvLookupLocally ''cloud'' ''busy'') exState))"
    using per_object_failure_handling [where e = exFailEnv and s = exState
        and bkt = "''cloud''" and obj = "''busy''" and sz = 0 and ver = "[]" and lerr = "[]" and props = None
        and cerr = "''skip''" and code = 0,
        THEN conjunct2, THEN conjunct2, THEN conjunct2, THEN conjunct2, THEN conjunct1] exFailEnv_facts(9,15)
    by simp
  have d5: "prefetchMissing exFailEnv ''torn'' ''cloud'' exState =
     Inr (emit (EvLogError (LogErrstr ''cloud failure''))
            (emit (EvColdget ''cloud'' ''torn'')
               (emit (EvLookupLocally ''cloud'' ''torn'') exState)))"
    using per_object_failure_handling [where e = exFailEnv and s = exState
        and bkt = "''cloud''" and obj = "''torn''" and sz = 0 and ver = "[]" and lerr = "''lookup failure''"
        and props = None and cerr = "''cloud failure''" and code = 500,
        THEN conjunct2, THEN conjunct2, THEN conjunct2, THEN conjunct2, THEN conjunct1]
      exFailEnv_facts(1,7,13)
    by simp
  have d6: "prefetchMissing exFailEnv ''stale'' ''cloud'' exState =
     Inr (emit (EvLogError (LogErrstr ''cloud failure''))
            (emit (EvColdget ''cloud'' ''stale'')
               (emit (EvCheckCloudVersion ''cloud'' ''stale'')
                  (emit (EvLookupLocally ''cloud'' ''stale'') exState))))"
    using per_object_failure_handling [where e = exFailEnv and s = exState
        and bkt = "''cloud''" and obj = "''stale''" and sz = 10 and ver = "''v2''" and vcode = 0
        and props = None and cerr = "''cloud failure''" and code = 500,
        THEN conjunct2, THEN conjunct2, THEN conjunct2, THEN conjunct2, THEN conjunct2]
      exFailEnv_facts(1,2,3,6,11,14)
    by simp
  have f1: "fildelete exEnv ''b'' ''a'' False = None" using exEnv_facts(2) by simp
  from exEnv_facts(1) [of "nextid exQueued"] f1 exEnv_facts(3) exEnv_coldgetOk
    exQueued_fields(1) a1 a2 a3 [unfolded msg_def] b c d1 d2 d3 d4 d5 d6
  show ?thesis by (intro conjI)
qed

section \<open>Discovery returns the maximal versions\<close>

lemma maxVer_step:
  assumes "isMaxVer ver ms cur"
  shows "isMaxVer ver
           (ms @ (case new of None \<Rightarrow> [] | Some n \<Rightarrow> if ver n \<noteq> 0 then [n] else []))
           (maxVer ver cur new)"
proof (cases new)
  case None
  with assms show ?thesis by (simp add: maxVer_def)
next
  case (Some n)
  show ?thesis
  proof (cases "ver n = 0")
    case True
    with Some assms show ?thesis by (simp add: maxVer_def)
  next
    case nz: False
    show ?thesis
    proof (cases cur)
      case None
      with assms have "ms = []" by (simp add: isMaxVer_def)
      with Some nz None show ?thesis by (simp add: maxVer_def isMaxVer_def)
    next
      case (Some c)
      with assms have c: "c \<in> set ms" "\<forall>m' \<in> set ms. ver m' \<le> ver c"
        by (simp_all add: isMaxVer_def)
      show ?thesis
      proof (cases "ver c < ver n")
        case True
        have "\<forall>m' \<in> set ms. ver m' \<le> ver n"
        proof
          fix m' assume "m' \<in> set ms"
          with c(2) have "ver m' \<le> ver c" by blast
          with True show "ver m' \<le> ver n" by simp
        qed
        with \<open>new = Some n\<close> nz Some True show ?thesis
          by (simp add: maxVer_def isMaxVer_def)
      next
        case False
        with \<open>new = Some n\<close> nz Some c show ?thesis
          by (simp add: maxVer_def isMaxVer_def)
      qed
    qed
  qed
qed

lemma seen_snoc: "seen part ver (rs @ [r]) = seen part ver rs @ usable part ver r"
  by (simp add: seen_def)

lemma tally_step:
  assumes "isMaxVer Version (seen Smap Version rs0) ms"
    and "isMaxVer BVersion (seen BucketMD BVersion rs0) mb"
  shows "isMaxVer Version (seen Smap Version (rs0 @ [r])) (fst (tally (ms, mb) r))"
    and "isMaxVer BVersion (seen BucketMD BVersion (rs0 @ [r])) (snd (tally (ms, mb) r))"
proof -
  show "isMaxVer Version (seen Smap Version (rs0 @ [r])) (fst (tally (ms, mb) r))"
  proof (cases r)
    case Failed
    with assms(1) show ?thesis by (simp add: seen_snoc)
  next
    case (Replied msg)
    show ?thesis
    proof (cases "VoteInProgress msg")
      case True
      then have "usable Smap Version r = []" "fst (tally (ms, mb) r) = ms"
        using Replied by (simp_all split: option.splits)
      with assms(1) show ?thesis by (simp add: seen_snoc)
    next
      case False
      have u: "usable Smap Version r =
          (case Smap msg of None \<Rightarrow> [] | Some n \<Rightarrow> if Version n \<noteq> 0 then [n] else [])"
        using Replied False by (cases "Smap msg") simp_all
      have t: "fst (tally (ms, mb) r) = maxVer Version ms (Smap msg)"
        using Replied False by simp
      show ?thesis unfolding seen_snoc u t by (rule maxVer_step [OF assms(1)])
    qed
  qed
  show "isMaxVer BVersion (seen BucketMD BVersion (rs0 @ [r])) (snd (tally (ms, mb) r))"
  proof (cases r)
    case Failed
    with assms(2) show ?thesis by (simp add: seen_snoc)
  next
    case (Replied msg)
    show ?thesis
    proof (cases "VoteInProgress msg")
      case True
      then have "usable BucketMD BVersion r = []" "snd (tally (ms, mb) r) = mb"
        using Replied by (simp_all split: option.splits)
      with assms(2) show ?thesis by (simp add: seen_snoc)
    next
      case False
      have u: "usable BucketMD BVersion r =
          (case BucketMD msg of None \<Rightarrow> [] | Some n \<Rightarrow> if BVersion n \<noteq> 0 then [n] else [])"
        using Replied False by (cases "BucketMD msg") simp_all
      have t: "snd (tally (ms, mb) r) = maxVer BVersion mb (BucketMD msg)"
        using Replied False by simp
      show ?thesis unfolding seen_snoc u t by (rule maxVer_step [OF assms(2)])
    qed
  qed
qed

lemma foldl_tally:
  assumes "isMaxVer Version (seen Smap Version rs0) ms"
    and "isMaxVer BVersion (seen BucketMD BVersion rs0) mb"
  shows "isMaxVer Version (seen Smap Version (rs0 @ rs)) (fst (foldl tally (ms, mb) rs)) \<and>
         isMaxVer BVersion (seen BucketMD BVersion (rs0 @ rs)) (snd (foldl tally (ms, mb) rs))"
  using assms
proof (induction rs arbitrary: rs0 ms mb)
  case Nil
  then show ?case by simp
next
  case (Cons r rs)
  obtain ms1 mb1 where t: "tally (ms, mb) r = (ms1, mb1)" by (cases "tally (ms, mb) r")
  from tally_step [OF Cons.prems, of r] t
  have 1: "isMaxVer Version (seen Smap Version (rs0 @ [r])) ms1"
    and 2: "isMaxVer BVersion (seen BucketMD BVersion (rs0 @ [r])) mb1" by simp_all
  from Cons.IH [OF 1 2] t show ?case by simp
qed

lemma discover_isMax:
  "isMaxVer Version (seen Smap Version (received hint peers rounds))
     (fst (discoverClusterMeta hint peers rounds))"
  "isMaxVer BVersion (seen BucketMD BVersion (received hint peers rounds))
     (snd (discoverClusterMeta hint peers rounds))"
  using foldl_tally [of "[]" None None "received hint peers rounds"]
  by (simp_all add: discoverClusterMeta_def isMaxVer_def seen_def)

lemma isMaxVer_Nil: "isMaxVer ver [] r \<longleftrightarrow> r = None"
  by (cases r) (simp_all add: isMaxVer_def)

lemma isMaxVer_None: "isMaxVer ver ms None \<longleftrightarrow> ms = []"
  by (simp add: isMaxVer_def)

lemma discover_None_iff:
  "fst (discoverClusterMeta hint peers rounds) = None \<longleftrightarrow>
     seen Smap Version (received hint peers rounds) = []"
  "snd (discoverClusterMeta hint peers rounds) = None \<longleftrightarrow>
     seen BucketMD BVersion (received hint peers rounds) = []"
proof -
  show "fst (discoverClusterMeta hint peers rounds) = None \<longleftrightarrow>
     seen Smap Version (received hint peers rounds) = []"
    using discover_isMax(1) [of hint peers rounds] isMaxVer_Nil [of Version] isMaxVer_None
    by metis
  show "snd (discoverClusterMeta hint peers rounds) = None \<longleftrightarrow>
     seen BucketMD BVersion (received hint peers rounds) = []"
    using discover_isMax(2) [of hint peers rounds] isMaxVer_Nil [of BVersion] isMaxVer_None
    by metis
qed

lemma queryPeer_all:
  assumes "\<forall>k. P (peer k)"
  shows "\<forall>r \<in> set (queryPeer peer n k). P r"
proof (induction n arbitrary: k)
  case 0
  show ?case by simp
next
  case (Suc n)
  from assms have "P (peer k)" by blast
  with Suc [of "Suc k"] show ?case
    by (cases "peer k") (auto split: if_splits)
qed

lemma received_all:
  assumes "\<forall>i \<in> set (hinted hint). \<forall>k. P (peers i k)"
  shows "\<forall>r \<in> set (received hint peers rounds). P r"
  using assms queryPeer_all [of P] by (auto simp: received_def)

lemma seen_unusable:
  assumes "\<forall>r \<in> set rs. usable part ver r = []"
  shows "seen part ver rs = []"
  using assms by (simp add: seen_def)

lemma discover_nothing_usable:
  assumes "\<forall>i \<in> set (hinted hint). \<forall>k. usable Smap Version (peers i k) = [] \<and>
             usable BucketMD BVersion (peers i k) = []"
  shows "discoverClusterMeta hint peers rounds = (None, None)"
proof -
  from received_all [of hint "\<lambda>r. usable Smap Version r = [] \<and> usable BucketMD BVersion r = []"
      peers rounds] assms
  have a: "\<forall>r \<in> set (received hint peers rounds).
      usable Smap Version r = [] \<and> usable BucketMD BVersion r = []" by blast
  have 1: "seen Smap Version (received hint peers rounds) = []"
    by (rule seen_unusable) (use a in blast)
  have 2: "seen BucketMD BVersion (received hint peers rounds) = []"
    by (rule seen_unusable) (use a in blast)
  from 1 2 discover_None_iff [of hint peers rounds] show ?thesis
    by (simp add: prod_eq_iff)
qed

text \<open>
  Claim C9. The Smap that discovery returns is an instance of maximal version among the
  Smaps of the responses that succeeded, reported no vote in progress and had a version
  other than 0, and it is none exactly when there is no such response; the same holds,
  independently, for the bucket metadata. So the result is (none, none) for an empty hint
  set, for peers that fail at every call, and for peers that report a vote in progress at
  every call.
\<close>

theorem discoverClusterMeta_max_versions:
  "isMaxVer Version (seen Smap Version (received hint peers rounds))
     (fst (discoverClusterMeta hint peers rounds)) \<and>
   isMaxVer BVersion (seen BucketMD BVersion (received hint peers rounds))
     (snd (discoverClusterMeta hint peers rounds)) \<and>
   (fst (discoverClusterMeta hint peers rounds) = None \<longleftrightarrow>
      seen Smap Version (received hint peers rounds) = []) \<and>
   (snd (discoverClusterMeta hint peers rounds) = None \<longleftrightarrow>
      seen BucketMD BVersion (received hint peers rounds) = []) \<and>
   (hinted hint = [] \<longrightarrow> discoverClusterMeta hint peers rounds = (None, None)) \<and>
   ((\<forall>i \<in> set (hinted hint). \<forall>k. peers i k = Failed) \<longrightarrow>
      discoverClusterMeta hint peers rounds = (None, None)) \<and>
   ((\<forall>i \<in> set (hinted hint). \<forall>k. \<exists>msg. peers i k = Replied msg \<and> VoteInProgress msg) \<longrightarrow>
      discoverClusterMeta hint peers rounds = (None, None))"
proof (intro conjI impI)
  show "isMaxVer Version (seen Smap Version (received hint peers rounds))
     (fst (discoverClusterMeta hint peers rounds))" by (rule discover_isMax)
  show "isMaxVer BVersion (seen BucketMD BVersion (received hint peers rounds))
     (snd (discoverClusterMeta hint peers rounds))" by (rule discover_isMax)
  show "fst (discoverClusterMeta hint peers rounds) = None \<longleftrightarrow>
      seen Smap Version (received hint peers rounds) = []" by (rule discover_None_iff)
  show "snd (discoverClusterMeta hint peers rounds) = None \<longleftrightarrow>
      seen BucketMD BVersion (received hint peers rounds) = []" by (rule discover_None_iff)
next
  assume "hinted hint = []"
  then show "discoverClusterMeta hint peers rounds = (None, None)"
    by (simp add: discoverClusterMeta_def received_def)
next
  assume "\<forall>i \<in> set (hinted hint). \<forall>k. peers i k = Failed"
  then show "discoverClusterMeta hint peers rounds = (None, None)"
    by (intro discover_nothing_usable) simp
next
  assume a: "\<forall>i \<in> set (hinted hint). \<forall>k. \<exists>msg. peers i k = Replied msg \<and> VoteInProgress msg"
  show "discoverClusterMeta hint peers rounds = (None, None)"
  proof (rule discover_nothing_usable, intro ballI allI)
    fix i k assume "i \<in> set (hinted hint)"
    with a obtain msg where "peers i k = Replied msg" "VoteInProgress msg" by blast
    then show "usable Smap Version (peers i k) = [] \<and> usable BucketMD BVersion (peers i k) = []"
      by (simp split: option.splits)
  qed
qed

lemma exHint_hinted: "hinted exHint = [''t1'', ''t2'']"
  by (simp add: hinted_def exHint_def)

lemma TestDiscoverServers_vote_once:
  "versions (discoverClusterMeta exHint
      (\<lambda>i. if i = ''t1'' then discoverServerVoteOnceHandler 4 5
           else discoverServerDefaultHandler 1 2) 4) = (4, 5)"
  by (simp add: discoverClusterMeta_def received_def exHint_hinted eval_nat_numeral
      discoverServerVoteOnceHandler_def discoverServerDefaultHandler_def maxVer_def versions_def)

lemma TestDiscoverServers_fail_twice:
  "versions (discoverClusterMeta exHint
      (\<lambda>i. if i = ''t1'' then discoverServerFailTwiceHandler 4 5
           else discoverServerDefaultHandler 1 2) 5) = (4, 5)"
  by (simp add: discoverClusterMeta_def received_def exHint_hinted eval_nat_numeral
      discoverServerFailTwiceHandler_def discoverServerDefaultHandler_def maxVer_def
      versions_def)

lemma TestDiscoverServers_zero_smap_version:
  "versions (discoverClusterMeta exHint
      (\<lambda>i. if i = ''t1'' then discoverServerDefaultHandler 0 3
           else discoverServerDefaultHandler 0 4) 5) = (0, 4)"
  by (simp add: discoverClusterMeta_def received_def exHint_hinted eval_nat_numeral
      discoverServerDefaultHandler_def maxVer_def versions_def)

theorem discoverClusterMeta_max_versions_witness:
  "discoverClusterMeta exHint (\<lambda>i. discoverServerAlwaysFailHandler 4 5) 5 = (None, None) \<and>
   discoverClusterMeta exHint (\<lambda>i. discoverServerVoteInProgressHandler 4 5) 4 = (None, None) \<and>
   discoverClusterMeta \<lparr>Tmap = [], Pmap = [], Version = 0\<rparr>
     (\<lambda>i. discoverServerDefaultHandler 1 2) 1 = (None, None) \<and>
   versions (discoverClusterMeta exHint
      (\<lambda>i. if i = ''t1'' then discoverServerVoteOnceHandler 4 5
           else discoverServerDefaultHandler 1 2) 4) = (4, 5)"
proof -
  have f: "\<forall>i \<in> set (hinted exHint). \<forall>k. (\<lambda>i. discoverServerAlwaysFailHandler 4 5) i k = Failed"
    by (simp add: discoverServerAlwaysFailHandler_def)
  have v: "\<forall>i \<in> set (hinted exHint). \<forall>k. \<exists>msg.
      (\<lambda>i. discoverServerVoteInProgressHandler 4 5) i k = Replied msg \<and> VoteInProgress msg"
    by (simp add: discoverServerVoteInProgressHandler_def)
  have h: "hinted \<lparr>Tmap = [], Pmap = [], Version = 0\<rparr> = []" by (simp add: hinted_def)
  note T = discoverClusterMeta_max_versions
  have 1: "discoverClusterMeta exHint (\<lambda>i. discoverServerAlwaysFailHandler 4 5) 5 = (None, None)"
    using T [of exHint "\<lambda>i. discoverServerAlwaysFailHandler 4 5" 5] f by blast
  have 2: "discoverClusterMeta exHint (\<lambda>i. discoverServerVoteInProgressHandler 4 5) 4 =
      (None, None)"
    using T [of exHint "\<lambda>i. discoverServerVoteInProgressHandler 4 5" 4] v by blast
  have 3: "discoverClusterMeta \<lparr>Tmap = [], Pmap = [], Version = 0\<rparr>
     (\<lambda>i. discoverServerDefaultHandler 1 2) 1 = (None, None)"
    using T [of "\<lparr>Tmap = [], Pmap = [], Version = 0\<rparr>" "\<lambda>i. discoverServerDefaultHandler 1 2" 1]
      h by blast
  from 1 2 3 TestDiscoverServers_vote_once show ?thesis by (intro conjI)
qed

section \<open>Prefetch on a local bucket: what reaches the caller\<close>













text \<open>
  What the handler does with the refusal when Wait is set: the goroutine has ended without
  a send on the done channel, nothing was queued that could send later, and the handler
  stays at the receive.
\<close>

lemma prefetchList_local_wait:
  "fst (prefetchList exEnv (Some [''local'']) (exListMsg [''obj1''] True) exState) =
     HWaiting (Some 0)"
proof -
  define msg where "msg = exListMsg [''obj1''] True"
  define s1 where "s1 = exState\<lparr>nchan := 1, trace := [EvMakeChan 0]\<rparr>"
  have on: "Objnames msg = [''obj1'']" by (simp add: msg_def exListMsg_def)
  have k: "ownedObjs exEnv ''local'' (Objnames msg) [] = Kept [''obj1'']"
    unfolding on by (rule exOwnedObj1)
  have md: "makeDone (Wait msg) exState = (Some 0, s1)"
    by (simp add: msg_def exListMsg_def makeDone_def makeChan_def emit_def exState_def s1_def)
  have l: "islocal exEnv ''local''" by (simp add: exEnv_def)
  have op: "addPrefetchList exEnv [''obj1''] ''local'' (Deadline msg) (Some 0) s1 =
      (OpReturned (Some (ErrLocalPrefetch ''local'')), s1)"
    by (rule prefetch_local [OF l])
  have "prefetchList exEnv (Some [''local'']) msg exState =
      awaitDone (Wait msg) (Some 0)
        (statsAdd ''numerr'' 1
           (emit (EvLogError (LogListOperation (ErrLocalPrefetch ''local''))) s1))"
    unfolding prefetchList_def
    using listOperation_Kept [where e = exEnv and bkt = "''local''" and m = msg
        and objs = "[''obj1'']" and s = exState and dn = "Some 0" and ?s1.0 = s1
        and op = "addPrefetchList exEnv" and r = "OpReturned (Some (ErrLocalPrefetch ''local''))"
        and ?s2.0 = s1 and rest = "[]"] k md op
    by simp
  then show ?thesis
    unfolding msg_def [symmetric]
    by (simp add: awaitDone_def msg_def exListMsg_def s1_def exState_def)
qed

section \<open>The cases of TestDiscoverServers on the model\<close>

text \<open>
  The test waits 1ms, 300ms or 400ms with a retry interval of 100ms: one, four and five
  calls to a peer. The expected versions of the table, 0 standing for nil.
\<close>

lemmas discover_eval = discoverClusterMeta_def received_def hinted_def hintOf_def
  eval_nat_numeral discoverServerDefaultHandler_def discoverServerVoteOnceHandler_def
  discoverServerFailTwiceHandler_def discoverServerAlwaysFailHandler_def
  discoverServerVoteInProgressHandler_def maxVer_def versions_def

lemma TestDiscoverServers_empty_hint_map:
  "versions (discoverClusterMeta (hintOf []) (\<lambda>i. discoverServerDefaultHandler 1 2) 1) = (0, 0)"
  by (simp add: discover_eval)

lemma TestDiscoverServers_all_agreed:
  "versions (discoverClusterMeta (hintOf [(''p1'', True), (''t1'', False)])
      (\<lambda>i. discoverServerDefaultHandler 1 2) 1) = (1, 2)"
  by (simp add: discover_eval)

lemma TestDiscoverServers_mixed:
  "versions (discoverClusterMeta (hintOf [(''p1'', True), (''t1'', False), (''t2'', False)])
      (\<lambda>i. if i = ''t1'' then discoverServerDefaultHandler 4 5
           else discoverServerDefaultHandler 1 2) 1) = (4, 5)"
  by (simp add: discover_eval)

lemma TestDiscoverServers_voting:
  "versions (discoverClusterMeta (hintOf [(''t1'', False), (''t2'', False)])
      (\<lambda>i. if i = ''t1'' then discoverServerVoteInProgressHandler 4 5
           else discoverServerVoteInProgressHandler 1 2) 4) = (0, 0)"
  by (simp add: discover_eval)

lemma TestDiscoverServers_voting_and_map_mixed:
  "versions (discoverClusterMeta (hintOf [(''t1'', False), (''t2'', False)])
      (\<lambda>i. if i = ''t1'' then discoverServerVoteInProgressHandler 4 5
           else discoverServerDefaultHandler 1 2) 4) = (1, 2)"
  by (simp add: discover_eval)

lemma TestDiscoverServers_all_failed:
  "versions (discoverClusterMeta (hintOf [(''t1'', False), (''t2'', False)])
      (\<lambda>i. if i = ''t1'' then discoverServerAlwaysFailHandler 4 5
           else discoverServerAlwaysFailHandler 1 2) 5) = (0, 0)"
  by (simp add: discover_eval)

lemma TestDiscoverServers_fail_and_good_mixed:
  "versions (discoverClusterMeta (hintOf [(''t1'', False), (''t2'', False)])
      (\<lambda>i. if i = ''t1'' then discoverServerDefaultHandler 4 5
           else discoverServerAlwaysFailHandler 1 2) 5) = (4, 5)"
  by (simp add: discover_eval)

lemma TestDiscoverServers_zero_bucket_metadata_version:
  "versions (discoverClusterMeta (hintOf [(''p1'', True), (''t1'', False)])
      (\<lambda>i. discoverServerDefaultHandler 1 0) 5) = (1, 0)"
  by (simp add: discover_eval)

end
